theory Spec2Isabelle
  imports Complex_Main
begin

section \<open>Points and the line rasterizer (src/src/App.tsx, plotLine)\<close>

text \<open>
  The interface \<open>Point\<close> of the source has the two fields \<open>x\<close> and \<open>y\<close>. They are
  called \<open>px\<close> and \<open>py\<close> here, since the loops of the source use \<open>x\<close> and \<open>y\<close> as
  variables. The record is polymorphic in the coordinate type: the rasterizer is only
  ever called on \<open>Math.round\<close>ed numbers and is modelled over \<open>int\<close>, the pointer
  coordinates are arbitrary numbers and are modelled over \<open>rat\<close>.
\<close>

record 'a Point =
  px :: 'a
  py :: 'a

text \<open>
  The body of the \<open>for\<close> loop of \<open>plotLineLow\<close> (lines 706 to 714): \<open>x\<close> runs from
  \<open>x0\<close> to \<open>x1\<close>, each round pushes \<open>{x, y}\<close> to \<open>points\<close> and then updates \<open>y\<close> and
  the decision variable \<open>D\<close>.
\<close>

function plotLineLow_loop ::
  "int \<Rightarrow> int \<Rightarrow> int \<Rightarrow> int \<Rightarrow> int \<Rightarrow> int \<Rightarrow> int \<Rightarrow> int Point list \<Rightarrow> int Point list" where
  "plotLineLow_loop x x1 dx dy yi D y points =
     (if x \<le> x1 then
        (if D > 0
         then plotLineLow_loop (x + 1) x1 dx dy yi (D + 2 * (dy - dx)) (y + yi)
                (points @ [\<lparr>px = x, py = y\<rparr>])
         else plotLineLow_loop (x + 1) x1 dx dy yi (D + 2 * dy) y
                (points @ [\<lparr>px = x, py = y\<rparr>]))
      else points)"
  by pat_completeness auto
termination
  by (relation "measure (\<lambda>(x, x1, dx, dy, yi, D, y, points). nat (x1 + 1 - x))") auto

declare plotLineLow_loop.simps [simp del]

definition plotLineLow :: "int \<Rightarrow> int \<Rightarrow> int \<Rightarrow> int \<Rightarrow> int Point list \<Rightarrow> int Point list" where
  "plotLineLow x0 y0 x1 y1 points =
     (let dx = x1 - x0;
          dy = y1 - y0;
          yi = (if dy < 0 then - 1 else 1);
          dy = (if dy < 0 then - dy else dy);
          D = 2 * dy - dx
      in plotLineLow_loop x0 x1 dx dy yi D y0 points)"

text \<open>The loop of \<open>plotLineHigh\<close> (lines 734 to 742), with \<open>y\<close> as the running variable.\<close>

function plotLineHigh_loop ::
  "int \<Rightarrow> int \<Rightarrow> int \<Rightarrow> int \<Rightarrow> int \<Rightarrow> int \<Rightarrow> int \<Rightarrow> int Point list \<Rightarrow> int Point list" where
  "plotLineHigh_loop y y1 dx dy xi D x points =
     (if y \<le> y1 then
        (if D > 0
         then plotLineHigh_loop (y + 1) y1 dx dy xi (D + 2 * (dx - dy)) (x + xi)
                (points @ [\<lparr>px = x, py = y\<rparr>])
         else plotLineHigh_loop (y + 1) y1 dx dy xi (D + 2 * dx) x
                (points @ [\<lparr>px = x, py = y\<rparr>]))
      else points)"
  by pat_completeness auto
termination
  by (relation "measure (\<lambda>(y, y1, dx, dy, xi, D, x, points). nat (y1 + 1 - y))") auto

declare plotLineHigh_loop.simps [simp del]

definition plotLineHigh :: "int \<Rightarrow> int \<Rightarrow> int \<Rightarrow> int \<Rightarrow> int Point list \<Rightarrow> int Point list" where
  "plotLineHigh x0 y0 x1 y1 points =
     (let dx = x1 - x0;
          dy = y1 - y0;
          xi = (if dx < 0 then - 1 else 1);
          dx = (if dx < 0 then - dx else dx);
          D = 2 * dx - dy
      in plotLineHigh_loop y0 y1 dx dy xi D x0 points)"

text \<open>\<open>plotLine\<close> (lines 745 to 768) starts from the empty array and returns it.\<close>

definition plotLine :: "int \<Rightarrow> int \<Rightarrow> int \<Rightarrow> int \<Rightarrow> int Point list" where
  "plotLine x0 y0 x1 y1 =
     (if \<bar>y1 - y0\<bar> < \<bar>x1 - x0\<bar> then
        (if x0 > x1 then plotLineLow x1 y1 x0 y0 [] else plotLineLow x0 y0 x1 y1 [])
      else
        (if y0 > y1 then plotLineHigh x1 y1 x0 y0 [] else plotLineHigh x0 y0 x1 y1 []))"

text \<open>
  The Chebyshev distance of two integer points, and 8-connectedness of a sequence:
  every two consecutive points are at Chebyshev distance at most 1.
\<close>

definition chebyshev :: "int Point \<Rightarrow> int Point \<Rightarrow> int" where
  "chebyshev p q = max \<bar>px p - px q\<bar> \<bar>py p - py q\<bar>"

fun connected8 :: "int Point list \<Rightarrow> bool" where
  "connected8 [] = True"
| "connected8 [p] = True"
| "connected8 (p # q # ps) = (chebyshev p q \<le> 1 \<and> connected8 (q # ps))"


text \<open>
  Notions used only in the proofs about the rasterizer: the next value of the decision
  variable and of the minor coordinate after one round of the loop, the transposition of
  a point (which turns \<open>plotLineHigh\<close> into \<open>plotLineLow\<close>), and the invariant of
  Bresenham's algorithm after \<open>k\<close> rounds in which the minor coordinate has moved \<open>j\<close>
  times.
\<close>

definition nextD :: "int \<Rightarrow> int \<Rightarrow> int \<Rightarrow> int" where
  "nextD dx dy D = (if D > 0 then D + 2 * (dy - dx) else D + 2 * dy)"

definition nextY :: "int \<Rightarrow> int \<Rightarrow> int \<Rightarrow> int" where
  "nextY yi D y = (if D > 0 then y + yi else y)"

definition swap_pt :: "int Point \<Rightarrow> int Point" where
  "swap_pt p = \<lparr>px = py p, py = px p\<rparr>"

definition bres_inv :: "int \<Rightarrow> int \<Rightarrow> int \<Rightarrow> int \<Rightarrow> int \<Rightarrow> bool" where
  "bres_inv dx dy k j D \<longleftrightarrow>
     D = 2 * dy * (k + 1) - 2 * dx * j - dx \<and> 2 * dy - 2 * dx \<le> D \<and> D \<le> 2 * dy
     \<and> 0 \<le> j \<and> j \<le> k"

section \<open>Strokes, the WebGL state and the component state\<close>

text \<open>
  JavaScript numbers that hold measurements (coordinates, widths, opacities, colour
  channels) are modelled as exact rationals; \<open>currentStrokeIndex\<close> is an \<open>int\<close>.
\<close>

datatype Tool = pen | highlighter | eraser

record Stroke =
  points :: "rat Point list"
  color :: string
  tool :: Tool
  lineWidth :: rat
  opacity :: rat

text \<open>
  The part of the WebGL context the component writes: the blend function, the two
  uniforms \<open>u_color\<close> and \<open>u_alpha\<close>, the clear colour, and the drawing surface. The
  surface is the sequence of triangle fans drawn since the last \<open>gl.clear\<close>, each with the
  blend function and the uniforms in force when \<open>gl.drawArrays\<close> was called. A fan is
  recorded by the centre, the radius and the number of rim segments that
  \<open>drawStrokeCircle\<close> computes; the rim vertices themselves (sines and cosines) are not
  part of the model.
\<close>

datatype BlendFactor = SRC_ALPHA | ONE_MINUS_SRC_ALPHA | ONE

record Fan =
  center :: "rat Point"
  radius :: rat
  segments :: int
  fanBlend :: "BlendFactor \<times> BlendFactor"
  fanColor :: "rat \<times> rat \<times> rat"
  fanAlpha :: rat

record GL =
  clearColor :: "rat \<times> rat \<times> rat \<times> rat"
  blendFunc :: "BlendFactor \<times> BlendFactor"
  u_color :: "rat \<times> rat \<times> rat"
  u_alpha :: rat
  surface :: "Fan list"

text \<open>
  The state of \<open>DrawingCanvas\<close> (lines 494 to 512): the \<open>useState\<close> values and the refs.
  \<open>glRef\<close> holds the context or \<open>None\<close> for \<open>null\<close>; the four refs to WebGL objects are
  only ever tested for \<open>null\<close> and are modelled by that test. The state \<open>size\<close> is called
  \<open>sizeN\<close>.
\<close>

record State =
  selectedTool :: Tool
  selectedColor :: string
  sizeN :: rat
  penOpacity :: rat
  highlighterOpacity :: rat
  strokes :: "Stroke list"
  currentStrokeIndex :: int
  glRef :: "GL option"
  programRef :: bool
  positionBufferRef :: bool
  colorLocationRef :: bool
  alphaLocationRef :: bool
  isDrawingRef :: bool
  lastPointRef :: "rat Point"
  pixelRatioRef :: rat
  currentStrokeRef :: "rat Point list"

text \<open>The rectangle of \<open>getBoundingClientRect\<close>; only \<open>left\<close> and \<open>top\<close> are read.\<close>

record Rect =
  rectLeft :: rat
  rectTop :: rat

section \<open>Helpers of the host language\<close>

text \<open>\<open>Math.round\<close>: the nearest integer, halves rounded up.\<close>

definition js_round :: "rat \<Rightarrow> int" where
  "js_round v = \<lfloor>v + 1 / 2\<rfloor>"

text \<open>
  \<open>Array.prototype.slice(0, e)\<close>: a negative end counts from the end of the array, and
  the end is clamped to the length.
\<close>

definition slice0 :: "'a list \<Rightarrow> int \<Rightarrow> 'a list" where
  "slice0 xs e =
     (let len = int (length xs);
          k = (if e < 0 then max (len + e) 0 else min e len)
      in take (nat k) xs)"

text \<open>A rasterized integer point, read as a point with number coordinates.\<close>

definition toNum :: "int Point \<Rightarrow> rat Point" where
  "toNum p = \<lparr>px = of_int (px p), py = of_int (py p)\<rparr>"

section \<open>\<open>hexToRgb\<close> (lines 514 to 523)\<close>

text \<open>
  The regular expression \<open>/^#?([a-f\d]{2})([a-f\d]{2})([a-f\d]{2})$/i\<close> matches an
  optional \<open>#\<close> followed by exactly six hexadecimal digits of either case. \<open>parseInt\<close>
  with radix 16 is applied to the three groups only, each of two such digits.
\<close>

definition hexDigitValue :: "char \<Rightarrow> nat option" where
  "hexDigitValue =
     map_of [(CHR ''0'', 0), (CHR ''1'', 1), (CHR ''2'', 2), (CHR ''3'', 3), (CHR ''4'', 4),
             (CHR ''5'', 5), (CHR ''6'', 6), (CHR ''7'', 7), (CHR ''8'', 8), (CHR ''9'', 9),
             (CHR ''a'', 10), (CHR ''b'', 11), (CHR ''c'', 12), (CHR ''d'', 13),
             (CHR ''e'', 14), (CHR ''f'', 15),
             (CHR ''A'', 10), (CHR ''B'', 11), (CHR ''C'', 12), (CHR ''D'', 13),
             (CHR ''E'', 14), (CHR ''F'', 15)]"

definition parseInt16 :: "string \<Rightarrow> nat" where
  "parseInt16 g = foldl (\<lambda>a c. 16 * a + (case hexDigitValue c of Some v \<Rightarrow> v | None \<Rightarrow> 0)) 0 g"

definition hexToRgb :: "string \<Rightarrow> rat \<times> rat \<times> rat" where
  "hexToRgb hex =
     (let body = (case hex of [] \<Rightarrow> hex | c # rest \<Rightarrow> if c = CHR ''#'' then rest else hex)
      in if length body = 6 \<and> list_all (\<lambda>c. hexDigitValue c \<noteq> None) body
         then (of_nat (parseInt16 (take 2 body)) / 255,
               of_nat (parseInt16 (take 2 (drop 2 body))) / 255,
               of_nat (parseInt16 (drop 4 body)) / 255)
         else (0, 0, 0))"

section \<open>Stamps\<close>

text \<open>
  \<open>drawStrokeCircle\<close> (lines 525 to 547) and \<open>drawCircle\<close> (lines 665 to 687) have the
  same body: nothing happens unless the context, the program and the position buffer
  exist, otherwise one fan of \<open>max(8, floor(radius / 2))\<close> segments is drawn with the
  current blend function and uniforms.
\<close>

definition mkFan :: "GL \<Rightarrow> rat \<Rightarrow> rat Point \<Rightarrow> Fan" where
  "mkFan gl r c =
     \<lparr>center = c, radius = r, segments = max 8 \<lfloor>r / 2\<rfloor>,
      fanBlend = blendFunc gl, fanColor = u_color gl, fanAlpha = u_alpha gl\<rparr>"

definition drawStrokeCircle :: "rat Point \<Rightarrow> rat \<Rightarrow> State \<Rightarrow> State" where
  "drawStrokeCircle c r st =
     (case glRef st of
        None \<Rightarrow> st
      | Some gl \<Rightarrow>
          if \<not> programRef st \<or> \<not> positionBufferRef st then st
          else st\<lparr>glRef := Some (gl\<lparr>surface := surface gl @ [mkFan gl r c]\<rparr>)\<rparr>)"

definition drawCircle :: "rat Point \<Rightarrow> rat \<Rightarrow> State \<Rightarrow> State" where
  "drawCircle c r st =
     (case glRef st of
        None \<Rightarrow> st
      | Some gl \<Rightarrow>
          if \<not> programRef st \<or> \<not> positionBufferRef st then st
          else st\<lparr>glRef := Some (gl\<lparr>surface := surface gl @ [mkFan gl r c]\<rparr>)\<rparr>)"


section \<open>The stroke compositor: \<open>redrawCanvas\<close> and \<open>drawLine\<close>\<close>

text \<open>
  The draw state that \<open>redrawCanvas\<close> sets for one stroke (lines 561 to 576), from the
  stroke's own tool, colour and opacity.
\<close>

definition strokeDrawState :: "Stroke \<Rightarrow> GL \<Rightarrow> GL" where
  "strokeDrawState stroke gl =
     (if tool stroke = eraser then
        gl\<lparr>blendFunc := (SRC_ALPHA, ONE_MINUS_SRC_ALPHA), u_color := (1, 1, 1), u_alpha := 1\<rparr>
      else if tool stroke = highlighter then
        (case hexToRgb (color stroke) of (r, g, b) \<Rightarrow>
           let alpha = (opacity stroke / 100) * (1 / 10)
           in gl\<lparr>blendFunc := (ONE, ONE_MINUS_SRC_ALPHA),
                 u_color := (r * alpha, g * alpha, b * alpha), u_alpha := alpha\<rparr>)
      else
        (case hexToRgb (color stroke) of (r, g, b) \<Rightarrow>
           gl\<lparr>blendFunc := (SRC_ALPHA, ONE_MINUS_SRC_ALPHA),
               u_color := (r, g, b), u_alpha := opacity stroke / 100\<rparr>))"

text \<open>
  One round of the loop over the point pairs of a stroke (lines 585 to 599): the segment
  from \<open>points[i - 1]\<close> to \<open>points[i]\<close> is rasterized and stamped.
\<close>

definition replaySegment :: "rat Point list \<Rightarrow> rat \<Rightarrow> nat \<Rightarrow> State \<Rightarrow> State" where
  "replaySegment pts lw i st =
     (let from = pts ! (i - 1);
          to = pts ! i;
          bresenhamPoints = plotLine (js_round (px from)) (js_round (py from))
                                     (js_round (px to)) (js_round (py to))
      in fold (\<lambda>point. drawStrokeCircle (toNum point) (lw / 2)) bresenhamPoints st)"

text \<open>
  The callback of \<open>activeStrokes.forEach\<close> (lines 558 to 600). The indices \<open>i - 1\<close> and
  \<open>i\<close> of the loop stay below the length of the point array.
\<close>

definition replayStroke :: "Stroke \<Rightarrow> State \<Rightarrow> State" where
  "replayStroke stroke st =
     (if length (points stroke) = 0 then st
      else
        let st1 = st\<lparr>glRef := map_option (strokeDrawState stroke) (glRef st)\<rparr>;
            lw = lineWidth stroke * pixelRatioRef st1
        in if length (points stroke) = 1
           then drawStrokeCircle (points stroke ! 0) (lw / 2) st1
           else fold (replaySegment (points stroke) lw) [1 ..< length (points stroke)] st1)"

definition redrawCanvas :: "State \<Rightarrow> State" where
  "redrawCanvas st =
     (case glRef st of
        None \<Rightarrow> st
      | Some gl \<Rightarrow>
          if \<not> colorLocationRef st \<or> \<not> alphaLocationRef st then st
          else
            let st1 = st\<lparr>glRef := Some (gl\<lparr>clearColor := (1, 1, 1, 1), surface := []\<rparr>)\<rparr>;
                activeStrokes = slice0 (strokes st1) (currentStrokeIndex st1 + 1)
            in fold replayStroke activeStrokes st1)"

text \<open>
  The draw state that \<open>drawLine\<close> sets (lines 783 to 798), from the live selection, and
  \<open>drawLine\<close> itself (lines 770 to 810).
\<close>

definition liveDrawState :: "State \<Rightarrow> GL \<Rightarrow> GL" where
  "liveDrawState st gl =
     (if selectedTool st = eraser then
        gl\<lparr>blendFunc := (SRC_ALPHA, ONE_MINUS_SRC_ALPHA), u_color := (1, 1, 1), u_alpha := 1\<rparr>
      else if selectedTool st = highlighter then
        (case hexToRgb (selectedColor st) of (r, g, b) \<Rightarrow>
           let alpha = (highlighterOpacity st / 100) * (1 / 10)
           in gl\<lparr>blendFunc := (ONE, ONE_MINUS_SRC_ALPHA),
                 u_color := (r * alpha, g * alpha, b * alpha), u_alpha := alpha\<rparr>)
      else
        (case hexToRgb (selectedColor st) of (r, g, b) \<Rightarrow>
           gl\<lparr>blendFunc := (SRC_ALPHA, ONE_MINUS_SRC_ALPHA),
               u_color := (r, g, b), u_alpha := penOpacity st / 100\<rparr>))"

definition drawLine :: "rat Point \<Rightarrow> rat Point \<Rightarrow> State \<Rightarrow> State" where
  "drawLine from to st =
     (case glRef st of
        None \<Rightarrow> st
      | Some gl \<Rightarrow>
          if \<not> programRef st \<or> \<not> positionBufferRef st
             \<or> \<not> colorLocationRef st \<or> \<not> alphaLocationRef st then st
          else
            let lw = sizeN st * pixelRatioRef st;
                st1 = st\<lparr>glRef := Some (liveDrawState st gl)\<rparr>;
                bresenhamPoints = plotLine (js_round (px from)) (js_round (py from))
                                           (js_round (px to)) (js_round (py to))
            in fold (\<lambda>point. drawCircle (toNum point) (lw / 2)) bresenhamPoints st1)"

section \<open>The history handlers\<close>

definition handleUndo :: "State \<Rightarrow> State" where
  "handleUndo st =
     (if currentStrokeIndex st \<ge> 0
      then st\<lparr>currentStrokeIndex := currentStrokeIndex st - 1\<rparr>
      else st)"

definition handleRedo :: "State \<Rightarrow> State" where
  "handleRedo st =
     (if currentStrokeIndex st < int (length (strokes st)) - 1
      then st\<lparr>currentStrokeIndex := currentStrokeIndex st + 1\<rparr>
      else st)"

definition handleClear :: "State \<Rightarrow> State" where
  "handleClear st =
     (let st1 = st\<lparr>strokes := [], currentStrokeIndex := - 1\<rparr>
      in case glRef st1 of
           None \<Rightarrow> st1
         | Some gl \<Rightarrow> st1\<lparr>glRef := Some (gl\<lparr>clearColor := (1, 1, 1, 1), surface := []\<rparr>)\<rparr>)"

section \<open>The pointer handlers\<close>

text \<open>
  The handlers read the event's \<open>clientX\<close> and \<open>clientY\<close> and the rectangle of the
  canvas, \<open>None\<close> when \<open>canvasRef.current\<close> is \<open>null\<close>.
\<close>

definition handlePointerDown :: "Rect option \<Rightarrow> rat \<Rightarrow> rat \<Rightarrow> State \<Rightarrow> State" where
  "handlePointerDown rect clientX clientY st =
     (let st1 = st\<lparr>isDrawingRef := True\<rparr>
      in case rect of
           None \<Rightarrow> st1
         | Some r \<Rightarrow>
             let x = (clientX - rectLeft r) * pixelRatioRef st1;
                 y = (clientY - rectTop r) * pixelRatioRef st1
             in st1\<lparr>lastPointRef := \<lparr>px = x, py = y\<rparr>,
                    currentStrokeRef := [\<lparr>px = x, py = y\<rparr>]\<rparr>)"

definition handlePointerMove :: "Rect option \<Rightarrow> rat \<Rightarrow> rat \<Rightarrow> State \<Rightarrow> State" where
  "handlePointerMove rect clientX clientY st =
     (if \<not> isDrawingRef st then st
      else case rect of
             None \<Rightarrow> st
           | Some r \<Rightarrow>
               let x = (clientX - rectLeft r) * pixelRatioRef st;
                   y = (clientY - rectTop r) * pixelRatioRef st;
                   st1 = drawLine (lastPointRef st) \<lparr>px = x, py = y\<rparr> st;
                   st2 = st1\<lparr>lastPointRef := \<lparr>px = x, py = y\<rparr>\<rparr>
               in st2\<lparr>currentStrokeRef := currentStrokeRef st2 @ [\<lparr>px = x, py = y\<rparr>]\<rparr>)"

text \<open>The stroke that \<open>handlePointerUp\<close> builds (lines 943 to 954).\<close>

definition newStroke :: "State \<Rightarrow> Stroke" where
  "newStroke st =
     \<lparr>points = currentStrokeRef st,
      color = (if selectedTool st = eraser then ''#FFFFFF'' else selectedColor st),
      tool = selectedTool st,
      lineWidth = sizeN st,
      opacity = (if selectedTool st = pen then penOpacity st
                 else if selectedTool st = highlighter then highlighterOpacity st
                 else 100)\<rparr>"

definition handlePointerUp :: "State \<Rightarrow> State" where
  "handlePointerUp st =
     (let st1 = st\<lparr>isDrawingRef := False\<rparr>
      in if length (currentStrokeRef st1) > 0 then
           let newStrokes = slice0 (strokes st1) (currentStrokeIndex st1 + 1) @ [newStroke st1]
           in st1\<lparr>strokes := newStrokes,
                  currentStrokeIndex := int (length newStrokes) - 1,
                  currentStrokeRef := []\<rparr>
         else st1)"

definition handleOpacityChange :: "rat \<Rightarrow> State \<Rightarrow> State" where
  "handleOpacityChange v st =
     (if selectedTool st = pen then st\<lparr>penOpacity := v\<rparr>
      else if selectedTool st = highlighter then st\<lparr>highlighterOpacity := v\<rparr>
      else st)"

section \<open>Events\<close>

text \<open>
  Everything wired to the canvas and the toolbar (lines 976 to 1005), and the effect
  that replays the history (lines 812 to 816), which React runs after a render in which
  \<open>currentStrokeIndex\<close> or \<open>strokes\<close> changed. The effect is an event of its own here, so
  that a sequence of events covers every order in which the handlers and the effect can
  run.
\<close>

datatype Event =
    PointerDown "Rect option" rat rat
  | PointerMove "Rect option" rat rat
  | PointerUp
  | PointerLeave
  | ToolChange Tool
  | ColorChange string
  | SizeChange rat
  | OpacityChange rat
  | UndoClick
  | RedoClick
  | ClearClick
  | RedrawEffect

definition redrawEffect :: "State \<Rightarrow> State" where
  "redrawEffect st = (if glRef st \<noteq> None \<and> colorLocationRef st then redrawCanvas st else st)"

fun handle :: "Event \<Rightarrow> State \<Rightarrow> State" where
  "handle (PointerDown rect clientX clientY) st = handlePointerDown rect clientX clientY st"
| "handle (PointerMove rect clientX clientY) st = handlePointerMove rect clientX clientY st"
| "handle PointerUp st = handlePointerUp st"
| "handle PointerLeave st = handlePointerUp st"
| "handle (ToolChange t) st = st\<lparr>selectedTool := t\<rparr>"
| "handle (ColorChange c) st = st\<lparr>selectedColor := c\<rparr>"
| "handle (SizeChange n) st = st\<lparr>sizeN := n\<rparr>"
| "handle (OpacityChange v) st = handleOpacityChange v st"
| "handle UndoClick st = handleUndo st"
| "handle RedoClick st = handleRedo st"
| "handle ClearClick st = handleClear st"
| "handle RedrawEffect st = redrawEffect st"

definition run :: "Event list \<Rightarrow> State \<Rightarrow> State" where
  "run evs st = fold handle evs st"

text \<open>
  The state of the first render (the arguments of \<open>useState\<close> and \<open>useRef\<close>), and the
  state once the mount effect (lines 818 to 910) has created the context, the program,
  the buffer and the uniform locations and has run \<open>resizeCanvas\<close> with the window's
  \<open>devicePixelRatio\<close>.
\<close>

definition initialState :: State where
  "initialState =
     \<lparr>selectedTool = pen, selectedColor = ''#000000'', sizeN = 5, penOpacity = 100,
      highlighterOpacity = 10, strokes = [], currentStrokeIndex = - 1,
      glRef = None, programRef = False, positionBufferRef = False,
      colorLocationRef = False, alphaLocationRef = False,
      isDrawingRef = False, lastPointRef = \<lparr>px = 0, py = 0\<rparr>, pixelRatioRef = 1,
      currentStrokeRef = []\<rparr>"

definition mountedGL :: GL where
  "mountedGL =
     \<lparr>clearColor = (1, 1, 1, 1), blendFunc = (SRC_ALPHA, ONE_MINUS_SRC_ALPHA),
      u_color = hexToRgb (selectedColor initialState), u_alpha = 1, surface = []\<rparr>"

definition mountedState :: "rat \<Rightarrow> State" where
  "mountedState devicePixelRatio =
     initialState
       \<lparr>glRef := Some mountedGL,
        programRef := True, positionBufferRef := True,
        colorLocationRef := True, alphaLocationRef := True,
        pixelRatioRef := (if devicePixelRatio = 0 then 1 else devicePixelRatio)\<rparr>"

section \<open>The history of the specification\<close>

text \<open>
  The specification speaks of a history with \<open>entries\<close> and \<open>activeCount\<close>. In the code
  \<open>entries\<close> is \<open>strokes\<close> and \<open>activeCount\<close> is \<open>currentStrokeIndex + 1\<close>.
\<close>

definition entries :: "State \<Rightarrow> Stroke list" where
  "entries st = strokes st"

definition activeCount :: "State \<Rightarrow> int" where
  "activeCount st = currentStrokeIndex st + 1"

definition history_inv :: "State \<Rightarrow> bool" where
  "history_inv st \<longleftrightarrow> 0 \<le> activeCount st \<and> activeCount st \<le> int (length (entries st))"

text \<open>
  The draw state that the specification prescribes for a tool, a colour and an opacity:
  blend function, colour and alpha.
\<close>

definition spec_drawState ::
  "Tool \<Rightarrow> rat \<times> rat \<times> rat \<Rightarrow> rat \<Rightarrow> (BlendFactor \<times> BlendFactor) \<times> (rat \<times> rat \<times> rat) \<times> rat" where
  "spec_drawState t c op =
     (case t of
        pen \<Rightarrow> ((SRC_ALPHA, ONE_MINUS_SRC_ALPHA), c, op / 100)
      | highlighter \<Rightarrow>
          (let a = (op / 100) * (1 / 10)
           in ((ONE, ONE_MINUS_SRC_ALPHA), (fst c * a, fst (snd c) * a, snd (snd c) * a), a))
      | eraser \<Rightarrow> ((SRC_ALPHA, ONE_MINUS_SRC_ALPHA), (1, 1, 1), 1))"

text \<open>The draw state of a context and of a fan, as such a triple.\<close>

definition glDrawState :: "GL \<Rightarrow> (BlendFactor \<times> BlendFactor) \<times> (rat \<times> rat \<times> rat) \<times> rat" where
  "glDrawState gl = (blendFunc gl, u_color gl, u_alpha gl)"

definition fanDrawState :: "Fan \<Rightarrow> (BlendFactor \<times> BlendFactor) \<times> (rat \<times> rat \<times> rat) \<times> rat" where
  "fanDrawState f = (fanBlend f, fanColor f, fanAlpha f)"

text \<open>The surface of a state: the fans on it, none without a context.\<close>

definition surfaceOf :: "State \<Rightarrow> Fan list" where
  "surfaceOf st = (case glRef st of None \<Rightarrow> [] | Some gl \<Rightarrow> surface gl)"


section \<open>Notions used in the proofs about the component\<close>

text \<open>
  The history part of a state; the fans added to the surface of a state; the centres
  that the replay of a stroke stamps (those of one segment, and those of the whole
  stroke); the existence of the three WebGL objects that \<open>drawStrokeCircle\<close> tests.
\<close>

definition hist :: "State \<Rightarrow> Stroke list \<times> int" where
  "hist st = (strokes st, currentStrokeIndex st)"

definition addFans :: "Fan list \<Rightarrow> State \<Rightarrow> State" where
  "addFans fans st = st\<lparr>glRef := map_option (\<lambda>gl. gl\<lparr>surface := surface gl @ fans\<rparr>) (glRef st)\<rparr>"

definition segmentCenters :: "rat Point list \<Rightarrow> nat \<Rightarrow> rat Point list" where
  "segmentCenters pts i =
     map toNum (plotLine (js_round (px (pts ! (i - 1)))) (js_round (py (pts ! (i - 1))))
                         (js_round (px (pts ! i))) (js_round (py (pts ! i))))"

definition strokeCenters :: "Stroke \<Rightarrow> rat Point list" where
  "strokeCenters s =
     (if length (points s) = 1 then [points s ! 0]
      else concat (map (segmentCenters (points s)) [1 ..< length (points s)]))"

text \<open>
  The fans that the replay of one stored stroke puts on the surface at a given pixel
  ratio: none for a stroke without points, otherwise one fan per stamped centre, of
  radius half the scaled line width, with the draw state the specification prescribes
  for the stroke's own tool, colour and opacity.
\<close>

definition replayFans :: "rat \<Rightarrow> Stroke \<Rightarrow> Fan list" where
  "replayFans pixelRatio s =
     (if points s = [] then []
      else map (\<lambda>c. \<lparr>center = c, radius = lineWidth s * pixelRatio / 2,
                       segments = max 8 \<lfloor>lineWidth s * pixelRatio / 2 / 2\<rfloor>,
                       fanBlend = fst (spec_drawState (tool s) (hexToRgb (color s)) (opacity s)),
                       fanColor = fst (snd (spec_drawState (tool s) (hexToRgb (color s)) (opacity s))),
                       fanAlpha = snd (snd (spec_drawState (tool s) (hexToRgb (color s)) (opacity s)))\<rparr>)
             (strokeCenters s))"

definition glReady :: "State \<Rightarrow> bool" where
  "glReady st \<longleftrightarrow> glRef st \<noteq> None \<and> programRef st \<and> positionBufferRef st"

text \<open>
  Example inputs: a canvas rectangle at the origin; the freshly mounted component at
  device pixel ratio 1 after a pointer-down at \<open>(10, 10)\<close>, and after the pointer-up that
  follows it; a sequence of events; a highlighter stroke; the mounted component with the
  highlighter selected at full opacity.
\<close>

definition rect0 :: Rect where
  "rect0 = \<lparr>rectLeft = 0, rectTop = 0\<rparr>"

definition downState :: State where
  "downState = handlePointerDown (Some rect0) 10 10 (mountedState 1)"

definition tapState :: State where
  "tapState = handlePointerUp downState"

definition exampleEvents :: "Event list" where
  "exampleEvents =
     [PointerDown (Some rect0) 10 10, PointerUp, UndoClick, UndoClick, RedoClick, ClearClick]"

definition exampleHighlight :: Stroke where
  "exampleHighlight =
     \<lparr>points = [\<lparr>px = 10, py = 10\<rparr>], color = ''#FFCC00'', tool = highlighter,
      lineWidth = 5, opacity = 50\<rparr>"

definition highlighterState :: State where
  "highlighterState = (mountedState 1)\<lparr>selectedTool := highlighter, highlighterOpacity := 100\<rparr>"

text \<open>
  A pen stroke of two points, and a mounted component whose history holds three strokes
  of which the first two are active, while the eraser is the live selection.
\<close>

definition examplePenStroke :: Stroke where
  "examplePenStroke =
     \<lparr>points = [\<lparr>px = 0, py = 0\<rparr>, \<lparr>px = 2, py = 1\<rparr>], color = ''#007AFF'', tool = pen,
      lineWidth = 4, opacity = 80\<rparr>"

definition exampleRedrawState :: State where
  "exampleRedrawState =
     (mountedState 1)\<lparr>strokes := [exampleHighlight, examplePenStroke, exampleHighlight],
                      currentStrokeIndex := 1, selectedTool := eraser\<rparr>"

section \<open>The rasterizer: proofs\<close>

lemma plotLineLow_loop_stop:
  "\<not> x \<le> x1 \<Longrightarrow> plotLineLow_loop x x1 dx dy yi D y acc = acc"
  by (simp add: plotLineLow_loop.simps)

lemma plotLineLow_loop_append_aux:
  "n = nat (x1 + 1 - x) \<Longrightarrow>
   plotLineLow_loop x x1 dx dy yi D y acc = acc @ plotLineLow_loop x x1 dx dy yi D y []"
proof (induction n arbitrary: x D y acc)
  case 0
  then have "\<not> x \<le> x1" by simp
  then show ?case by (simp add: plotLineLow_loop_stop)
next
  case (Suc n)
  then have le: "x \<le> x1" and n: "n = nat (x1 + 1 - (x + 1))" by simp_all
  note ih = Suc.IH [OF n]
  have l: "plotLineLow_loop x x1 dx dy yi D y acc =
      (acc @ [\<lparr>px = x, py = y\<rparr>]) @
        plotLineLow_loop (x + 1) x1 dx dy yi (if D > 0 then D + 2 * (dy - dx) else D + 2 * dy)
          (if D > 0 then y + yi else y) []" for acc
    using le by (subst plotLineLow_loop.simps)
      (simp add: ih [where acc = "acc @ [\<lparr>px = x, py = y\<rparr>]"])
  show ?case by (simp add: l [of acc] l [of "[]"])
qed

lemma plotLineLow_loop_append:
  "plotLineLow_loop x x1 dx dy yi D y acc = acc @ plotLineLow_loop x x1 dx dy yi D y []"
  by (rule plotLineLow_loop_append_aux [OF refl])

lemma plotLineLow_loop_step:
  "x \<le> x1 \<Longrightarrow> plotLineLow_loop x x1 dx dy yi D y [] =
     \<lparr>px = x, py = y\<rparr> # plotLineLow_loop (x + 1) x1 dx dy yi (nextD dx dy D) (nextY yi D y) []"
  apply (subst plotLineLow_loop.simps)
  apply (simp add: nextD_def nextY_def)
  apply (intro conjI impI)
   apply (subst plotLineLow_loop_append, simp)
  apply (subst plotLineLow_loop_append, simp)
  done

lemma plotLineLow_loop_length:
  "length (plotLineLow_loop x x1 dx dy yi D y []) = nat (x1 + 1 - x)"
proof (induction "nat (x1 + 1 - x)" arbitrary: x D y)
  case 0
  then have "\<not> x \<le> x1" by simp
  then show ?case by (simp add: plotLineLow_loop_stop)
next
  case (Suc n)
  then have le: "x \<le> x1" and n: "n = nat (x1 + 1 - (x + 1))" by simp_all
  show ?case using Suc.hyps(1) [OF n] le by (simp add: plotLineLow_loop_step)
qed

lemma plotLineLow_loop_hd:
  "x \<le> x1 \<Longrightarrow> hd (plotLineLow_loop x x1 dx dy yi D y []) = \<lparr>px = x, py = y\<rparr>"
  by (simp add: plotLineLow_loop_step)

lemma plotLineLow_loop_connected8:
  "\<bar>yi\<bar> \<le> 1 \<Longrightarrow> connected8 (plotLineLow_loop x x1 dx dy yi D y [])"
proof (induction "nat (x1 + 1 - x)" arbitrary: x D y)
  case 0
  then have "\<not> x \<le> x1" by simp
  then show ?case by (simp add: plotLineLow_loop_stop)
next
  case (Suc n)
  then have le: "x \<le> x1" and n: "n = nat (x1 + 1 - (x + 1))" by simp_all
  have ih: "connected8 (plotLineLow_loop (x + 1) x1 dx dy yi (nextD dx dy D) (nextY yi D y) [])"
    using Suc.hyps(1) [OF n] Suc.prems by simp
  show ?case
  proof (cases "x + 1 \<le> x1")
    case False
    then show ?thesis using le by (simp add: plotLineLow_loop_step plotLineLow_loop_stop)
  next
    case True
    from ih show ?thesis using le True Suc.prems
      by (simp add: plotLineLow_loop_step [of x] plotLineLow_loop_step [of "x + 1"]
          chebyshev_def nextY_def)
  qed
qed

lemma bres_inv_step:
  assumes "bres_inv dx dy k j D" "0 \<le> dy" "dy \<le> dx"
  shows "bres_inv dx dy (k + 1) (if D > 0 then j + 1 else j) (nextD dx dy D)"
  using assms unfolding bres_inv_def nextD_def
  by (auto simp: algebra_simps)

lemma bres_inv_final:
  assumes "bres_inv dx dy dx j D" "0 \<le> dy" "dy \<le> dx"
  shows "j = dy"
proof (cases "dx = 0")
  case True
  with assms show ?thesis by (simp add: bres_inv_def)
next
  case False
  with assms have pos: "0 < dx" by simp
  from assms(1) have lo: "- (2 * dx) \<le> dx * (2 * (dy - j) - 1)" and hi: "dx * (2 * (dy - j) - 1) \<le> 0"
    by (simp_all add: bres_inv_def algebra_simps)
  from hi pos have "2 * (dy - j) - 1 \<le> 0"
    by (simp add: mult_le_0_iff)
  moreover from lo pos have "- 2 \<le> 2 * (dy - j) - 1"
  proof -
    have "dx * (- 2) \<le> dx * (2 * (dy - j) - 1)" using lo by simp
    then show ?thesis using pos by (simp only: mult_le_cancel_left_pos)
  qed
  ultimately show ?thesis by arith
qed

lemma plotLineLow_loop_last:
  assumes "0 \<le> dy" "dy \<le> dx"
  shows "bres_inv dx dy (x - x0) j D \<Longrightarrow> x \<le> x0 + dx \<Longrightarrow>
     last (plotLineLow_loop x (x0 + dx) dx dy yi D (y0 + yi * j) []) = \<lparr>px = x0 + dx, py = y0 + yi * dy\<rparr>"
proof (induction "nat (x0 + dx - x)" arbitrary: x D j)
  case 0
  then have eq: "x = x0 + dx" by simp
  with 0 have "bres_inv dx dy dx j D" by simp
  from bres_inv_final [OF this assms] have "j = dy" .
  then show ?case using eq by (simp add: plotLineLow_loop_step plotLineLow_loop_stop)
next
  case (Suc n)
  then have lt: "x + 1 \<le> x0 + dx" and n: "n = nat (x0 + dx - (x + 1))" by simp_all
  from bres_inv_step [OF Suc.prems(1) assms]
  have inv: "bres_inv dx dy (x + 1 - x0) (if D > 0 then j + 1 else j) (nextD dx dy D)"
    by (simp add: algebra_simps)
  have y: "nextY yi D (y0 + yi * j) = y0 + yi * (if D > 0 then j + 1 else j)"
    by (simp add: nextY_def algebra_simps)
  have ne: "plotLineLow_loop (x + 1) (x0 + dx) dx dy yi (nextD dx dy D) (nextY yi D (y0 + yi * j)) [] \<noteq> []"
    using lt by (simp add: plotLineLow_loop_step [of "x + 1"])
  from Suc.hyps(1) [OF n inv lt] ne show ?case using Suc.prems(2)
    by (simp add: plotLineLow_loop_step [of x] y)
qed


lemma plotLineLow_length:
  "length (plotLineLow x0 y0 x1 y1 []) = nat (x1 + 1 - x0)"
  by (simp add: plotLineLow_def Let_def plotLineLow_loop_length)

lemma plotLineLow_connected8: "connected8 (plotLineLow x0 y0 x1 y1 [])"
  by (simp add: plotLineLow_def Let_def plotLineLow_loop_connected8)

lemma plotLineLow_hd: "x0 \<le> x1 \<Longrightarrow> hd (plotLineLow x0 y0 x1 y1 []) = \<lparr>px = x0, py = y0\<rparr>"
  by (simp add: plotLineLow_def Let_def plotLineLow_loop_hd)

lemma plotLineLow_last:
  assumes "x0 \<le> x1" "\<bar>y1 - y0\<bar> \<le> x1 - x0"
  shows "last (plotLineLow x0 y0 x1 y1 []) = \<lparr>px = x1, py = y1\<rparr>"
proof -
  define dx where "dx = x1 - x0"
  define dy where "dy = \<bar>y1 - y0\<bar>"
  define yi :: int where "yi = (if y1 - y0 < 0 then - 1 else 1)"
  have dy: "0 \<le> dy" "dy \<le> dx" using assms by (simp_all add: dx_def dy_def)
  have inv: "bres_inv dx dy (x0 - x0) 0 (2 * dy - dx)"
    using dy by (simp add: bres_inv_def)
  have x1: "x1 = x0 + dx" by (simp add: dx_def)
  have y1: "y1 = y0 + yi * dy" by (simp add: yi_def dy_def)
  have "plotLineLow x0 y0 x1 y1 [] = plotLineLow_loop x0 (x0 + dx) dx dy yi (2 * dy - dx) (y0 + yi * 0) []"
    by (simp add: plotLineLow_def Let_def dx_def dy_def yi_def abs_if)
  also have "last \<dots> = \<lparr>px = x0 + dx, py = y0 + yi * dy\<rparr>"
    using dy(1) dy(2) inv by (rule plotLineLow_loop_last) (use dy in simp)
  finally show ?thesis using x1 y1 by simp
qed

lemma swap_pt_swap_pt [simp]: "swap_pt (swap_pt p) = p"
  by (cases p) (simp add: swap_pt_def)

lemma swap_pt_comp [simp]: "swap_pt \<circ> swap_pt = id"
  by (rule ext) simp

lemma plotLineHigh_loop_swap:
  "plotLineHigh_loop y y1 dx dy xi D x acc =
     map swap_pt (plotLineLow_loop y y1 dy dx xi D x (map swap_pt acc))"
proof (induction "nat (y1 + 1 - y)" arbitrary: y D x acc)
  case 0
  then have "\<not> y \<le> y1" by simp
  then show ?case
    by (simp add: plotLineLow_loop.simps plotLineHigh_loop.simps)
next
  case (Suc n)
  then have le: "y \<le> y1" and n: "n = nat (y1 + 1 - (y + 1))" by simp_all
  note ih = Suc.hyps(1) [OF n, where acc = "acc @ [\<lparr>px = x, py = y\<rparr>]"]
  show ?case
    using le
    by (subst plotLineHigh_loop.simps, subst plotLineLow_loop.simps)
      (simp add: ih swap_pt_def)
qed

lemma plotLineHigh_swap:
  "plotLineHigh x0 y0 x1 y1 [] = map swap_pt (plotLineLow y0 x0 y1 x1 [])"
  by (simp add: plotLineHigh_def plotLineLow_def Let_def plotLineHigh_loop_swap)

lemma chebyshev_swap: "chebyshev (swap_pt p) (swap_pt q) = chebyshev p q"
  by (simp add: chebyshev_def swap_pt_def max.commute)

lemma connected8_swap: "connected8 (map swap_pt ps) = connected8 ps"
  by (induction ps rule: connected8.induct) (simp_all add: chebyshev_swap)

lemma plotLineHigh_length:
  "length (plotLineHigh x0 y0 x1 y1 []) = nat (y1 + 1 - y0)"
  by (simp add: plotLineHigh_swap plotLineLow_length)

lemma plotLineHigh_connected8: "connected8 (plotLineHigh x0 y0 x1 y1 [])"
  by (simp add: plotLineHigh_swap connected8_swap plotLineLow_connected8)

lemma plotLineHigh_hd: "y0 \<le> y1 \<Longrightarrow> hd (plotLineHigh x0 y0 x1 y1 []) = \<lparr>px = x0, py = y0\<rparr>"
proof -
  assume le: "y0 \<le> y1"
  then have "plotLineLow y0 x0 y1 x1 [] \<noteq> []"
    using plotLineLow_length [of y0 x0 y1 x1] by auto
  then show ?thesis using le
    by (simp add: plotLineHigh_swap hd_map plotLineLow_hd swap_pt_def)
qed

lemma plotLineHigh_last:
  assumes "y0 \<le> y1" "\<bar>x1 - x0\<bar> \<le> y1 - y0"
  shows "last (plotLineHigh x0 y0 x1 y1 []) = \<lparr>px = x1, py = y1\<rparr>"
proof -
  have "plotLineLow y0 x0 y1 x1 [] \<noteq> []"
    using assms(1) plotLineLow_length [of y0 x0 y1 x1] by auto
  then show ?thesis using assms
    by (simp add: plotLineHigh_swap last_map plotLineLow_last swap_pt_def)
qed


text \<open>\<open>connected8\<close> by indices: every point is within distance 1 of its successor.\<close>

lemma connected8_nth:
  "connected8 ps \<longleftrightarrow> (\<forall>i. Suc i < length ps \<longrightarrow> chebyshev (ps ! i) (ps ! Suc i) \<le> 1)"
proof (induction ps rule: connected8.induct)
  case (3 p q ps)
  show ?case
  proof
    assume a: "connected8 (p # q # ps)"
    show "\<forall>i. Suc i < length (p # q # ps) \<longrightarrow> chebyshev ((p # q # ps) ! i) ((p # q # ps) ! Suc i) \<le> 1"
    proof (intro allI impI)
      fix i assume i: "Suc i < length (p # q # ps)"
      show "chebyshev ((p # q # ps) ! i) ((p # q # ps) ! Suc i) \<le> 1"
      proof (cases i)
        case 0
        then show ?thesis using a by simp
      next
        case (Suc k)
        then show ?thesis using a i 3 by simp
      qed
    qed
  next
    assume a: "\<forall>i. Suc i < length (p # q # ps) \<longrightarrow> chebyshev ((p # q # ps) ! i) ((p # q # ps) ! Suc i) \<le> 1"
    have "chebyshev p q \<le> 1" using a [rule_format, of 0] by simp
    moreover have "connected8 (q # ps)"
      unfolding 3
    proof (intro allI impI)
      fix i assume "Suc i < length (q # ps)"
      then show "chebyshev ((q # ps) ! i) ((q # ps) ! Suc i) \<le> 1"
        using a [rule_format, of "Suc i"] by simp
    qed
    ultimately show "connected8 (p # q # ps)" by simp
  qed
qed simp_all

text \<open>
  Claim C1. For all integers \<open>x0\<close>, \<open>y0\<close>, \<open>x1\<close>, \<open>y1\<close> the sequence returned by
  \<open>plotLine\<close> is 8-connected (consecutive points are at Chebyshev distance at most 1),
  is not empty, starts and ends at the two given endpoints in one order or the other,
  and has at least \<open>max(|x1 - x0|, |y1 - y0|) + 1\<close> points.
\<close>

theorem plotLine_bresenham_coverage:
  "connected8 (plotLine x0 y0 x1 y1)
   \<and> plotLine x0 y0 x1 y1 \<noteq> []
   \<and> (hd (plotLine x0 y0 x1 y1) = \<lparr>px = x0, py = y0\<rparr>
        \<and> last (plotLine x0 y0 x1 y1) = \<lparr>px = x1, py = y1\<rparr>
      \<or> hd (plotLine x0 y0 x1 y1) = \<lparr>px = x1, py = y1\<rparr>
        \<and> last (plotLine x0 y0 x1 y1) = \<lparr>px = x0, py = y0\<rparr>)
   \<and> int (length (plotLine x0 y0 x1 y1)) \<ge> max \<bar>x1 - x0\<bar> \<bar>y1 - y0\<bar> + 1"
proof -
  consider (a) "\<bar>y1 - y0\<bar> < \<bar>x1 - x0\<bar>" "x0 > x1"
    | (b) "\<bar>y1 - y0\<bar> < \<bar>x1 - x0\<bar>" "\<not> x0 > x1"
    | (c) "\<not> \<bar>y1 - y0\<bar> < \<bar>x1 - x0\<bar>" "y0 > y1"
    | (d) "\<not> \<bar>y1 - y0\<bar> < \<bar>x1 - x0\<bar>" "\<not> y0 > y1"
    by blast
  then show ?thesis
  proof cases
    case a
    then have p: "plotLine x0 y0 x1 y1 = plotLineLow x1 y1 x0 y0 []" by (simp add: plotLine_def)
    have l: "length (plotLineLow x1 y1 x0 y0 []) = nat (x0 + 1 - x1)" by (rule plotLineLow_length)
    have h: "hd (plotLineLow x1 y1 x0 y0 []) = \<lparr>px = x1, py = y1\<rparr>"
      using a by (simp add: plotLineLow_hd)
    have t: "last (plotLineLow x1 y1 x0 y0 []) = \<lparr>px = x0, py = y0\<rparr>"
      using a by (intro plotLineLow_last) simp_all
    have ne: "plotLineLow x1 y1 x0 y0 [] \<noteq> []" using l a by auto
    show ?thesis unfolding p using l h t ne a plotLineLow_connected8 [of x1 y1 x0 y0] by simp
  next
    case b
    then have p: "plotLine x0 y0 x1 y1 = plotLineLow x0 y0 x1 y1 []" by (simp add: plotLine_def)
    have l: "length (plotLineLow x0 y0 x1 y1 []) = nat (x1 + 1 - x0)" by (rule plotLineLow_length)
    have h: "hd (plotLineLow x0 y0 x1 y1 []) = \<lparr>px = x0, py = y0\<rparr>"
      using b by (simp add: plotLineLow_hd)
    have t: "last (plotLineLow x0 y0 x1 y1 []) = \<lparr>px = x1, py = y1\<rparr>"
      using b by (intro plotLineLow_last) simp_all
    have ne: "plotLineLow x0 y0 x1 y1 [] \<noteq> []" using l b by auto
    show ?thesis unfolding p using l h t ne b plotLineLow_connected8 [of x0 y0 x1 y1] by simp
  next
    case c
    then have p: "plotLine x0 y0 x1 y1 = plotLineHigh x1 y1 x0 y0 []" by (simp add: plotLine_def)
    have l: "length (plotLineHigh x1 y1 x0 y0 []) = nat (y0 + 1 - y1)" by (rule plotLineHigh_length)
    have h: "hd (plotLineHigh x1 y1 x0 y0 []) = \<lparr>px = x1, py = y1\<rparr>"
      using c by (simp add: plotLineHigh_hd)
    have t: "last (plotLineHigh x1 y1 x0 y0 []) = \<lparr>px = x0, py = y0\<rparr>"
      using c by (intro plotLineHigh_last) simp_all
    have ne: "plotLineHigh x1 y1 x0 y0 [] \<noteq> []" using l c by auto
    show ?thesis unfolding p using l h t ne c plotLineHigh_connected8 [of x1 y1 x0 y0] by simp
  next
    case d
    then have p: "plotLine x0 y0 x1 y1 = plotLineHigh x0 y0 x1 y1 []" by (simp add: plotLine_def)
    have l: "length (plotLineHigh x0 y0 x1 y1 []) = nat (y1 + 1 - y0)" by (rule plotLineHigh_length)
    have h: "hd (plotLineHigh x0 y0 x1 y1 []) = \<lparr>px = x0, py = y0\<rparr>"
      using d by (simp add: plotLineHigh_hd)
    have t: "last (plotLineHigh x0 y0 x1 y1 []) = \<lparr>px = x1, py = y1\<rparr>"
      using d by (intro plotLineHigh_last) simp_all
    have ne: "plotLineHigh x0 y0 x1 y1 [] \<noteq> []" using l d by auto
    show ?thesis unfolding p using l h t ne d plotLineHigh_connected8 [of x0 y0 x1 y1] by simp
  qed
qed

text \<open>
  Claim C9. For every integer point, \<open>plotLine(x, y, x, y)\<close> is the one-element sequence
  of that point, and \<open>plotLine(0, 0, 10, 0)\<close> is the eleven points \<open>(0,0)\<close> to \<open>(10,0)\<close>
  in that order.
\<close>

theorem plotLine_degenerate_and_straight:
  "plotLine x y x y = [\<lparr>px = x, py = y\<rparr>]
   \<and> plotLine 0 0 10 0 =
        [\<lparr>px = 0, py = 0\<rparr>, \<lparr>px = 1, py = 0\<rparr>, \<lparr>px = 2, py = 0\<rparr>, \<lparr>px = 3, py = 0\<rparr>,
         \<lparr>px = 4, py = 0\<rparr>, \<lparr>px = 5, py = 0\<rparr>, \<lparr>px = 6, py = 0\<rparr>, \<lparr>px = 7, py = 0\<rparr>,
         \<lparr>px = 8, py = 0\<rparr>, \<lparr>px = 9, py = 0\<rparr>, \<lparr>px = 10, py = 0\<rparr>]"
proof
  show "plotLine x y x y = [\<lparr>px = x, py = y\<rparr>]"
    by (simp add: plotLine_def plotLineHigh_def plotLineHigh_loop.simps [of y] plotLineHigh_loop.simps [of "y + 1"])
  show "plotLine 0 0 10 0 =
        [\<lparr>px = 0, py = 0\<rparr>, \<lparr>px = 1, py = 0\<rparr>, \<lparr>px = 2, py = 0\<rparr>, \<lparr>px = 3, py = 0\<rparr>,
         \<lparr>px = 4, py = 0\<rparr>, \<lparr>px = 5, py = 0\<rparr>, \<lparr>px = 6, py = 0\<rparr>, \<lparr>px = 7, py = 0\<rparr>,
         \<lparr>px = 8, py = 0\<rparr>, \<lparr>px = 9, py = 0\<rparr>, \<lparr>px = 10, py = 0\<rparr>]"
    by (simp add: plotLine_def plotLineLow_def plotLineLow_loop.simps)
qed

section \<open>The history: proofs\<close>

lemma fold_frame:
  assumes "\<And>a s. g (f a s) = g s"
  shows "g (fold f xs s) = g s"
  using assms by (induction xs arbitrary: s) simp_all

lemma hist_drawStrokeCircle: "hist (drawStrokeCircle c r st) = hist st"
  by (simp add: drawStrokeCircle_def hist_def split: option.split)

lemma hist_drawCircle: "hist (drawCircle c r st) = hist st"
  by (simp add: drawCircle_def hist_def split: option.split)

lemma hist_replaySegment: "hist (replaySegment pts lw i st) = hist st"
  unfolding replaySegment_def Let_def
  by (rule fold_frame) (rule hist_drawStrokeCircle)

lemma hist_replayStroke: "hist (replayStroke stroke st) = hist st"
proof -
  have a: "hist (st\<lparr>glRef := v\<rparr>) = hist st" for v by (simp add: hist_def)
  have b: "hist (fold (replaySegment pts lw) is s) = hist s" for pts lw "is" s
    by (rule fold_frame) (rule hist_replaySegment)
  show ?thesis
    by (simp add: replayStroke_def Let_def hist_drawStrokeCircle a b)
qed

lemma hist_redrawCanvas: "hist (redrawCanvas st) = hist st"
proof -
  have a: "hist (st\<lparr>glRef := v\<rparr>) = hist st" for v by (simp add: hist_def)
  have b: "hist (fold replayStroke ss s) = hist s" for ss s
    by (rule fold_frame) (rule hist_replayStroke)
  show ?thesis
    by (simp add: redrawCanvas_def Let_def a b split: option.split)
qed

lemma hist_drawLine: "hist (drawLine from to st) = hist st"
proof -
  have a: "hist (st\<lparr>glRef := v\<rparr>) = hist st" for v by (simp add: hist_def)
  have b: "hist (fold (\<lambda>point. drawCircle (toNum point) r) ps s) = hist s" for r ps s
    by (rule fold_frame) (rule hist_drawCircle)
  show ?thesis
    by (simp add: drawLine_def Let_def a b split: option.split)
qed

lemma history_inv_hist: "hist s = hist t \<Longrightarrow> history_inv s = history_inv t"
  by (simp add: hist_def history_inv_def activeCount_def entries_def)

lemma history_inv_handleUndo: "history_inv st \<Longrightarrow> history_inv (handleUndo st)"
  by (simp add: handleUndo_def history_inv_def activeCount_def entries_def)

lemma history_inv_handleRedo: "history_inv st \<Longrightarrow> history_inv (handleRedo st)"
  by (simp add: handleRedo_def history_inv_def activeCount_def entries_def)

lemma history_inv_handleClear: "history_inv (handleClear st)"
  by (simp add: handleClear_def history_inv_def activeCount_def entries_def Let_def split: option.split)

lemma history_inv_handlePointerUp: "history_inv st \<Longrightarrow> history_inv (handlePointerUp st)"
  by (simp add: handlePointerUp_def history_inv_def activeCount_def entries_def Let_def)

lemma history_inv_handlePointerDown:
  "history_inv st \<Longrightarrow> history_inv (handlePointerDown rect cx cy st)"
  by (simp add: handlePointerDown_def history_inv_def activeCount_def entries_def Let_def
      split: option.split)

lemma history_inv_handlePointerMove:
  "history_inv st \<Longrightarrow> history_inv (handlePointerMove rect cx cy st)"
proof -
  assume inv: "history_inv st"
  have "history_inv (drawLine a b st)" for a b
    using inv history_inv_hist [OF hist_drawLine] by simp
  then show ?thesis
    using inv
    by (simp add: handlePointerMove_def Let_def history_inv_def activeCount_def entries_def
        split: option.split)
qed

lemma history_inv_handle: "history_inv st \<Longrightarrow> history_inv (handle ev st)"
proof (cases ev)
  case RedrawEffect
  assume "history_inv st"
  then show ?thesis using RedrawEffect history_inv_hist [OF hist_redrawCanvas, of st]
    by (simp add: redrawEffect_def)
next
  case (OpacityChange v)
  assume "history_inv st"
  then show ?thesis using OpacityChange
    by (simp add: handleOpacityChange_def history_inv_def activeCount_def entries_def)
qed (simp_all add: history_inv_handleUndo history_inv_handleRedo history_inv_handleClear
      history_inv_handlePointerUp history_inv_handlePointerDown history_inv_handlePointerMove,
     simp_all add: history_inv_def activeCount_def entries_def)

lemma history_inv_run: "history_inv st \<Longrightarrow> history_inv (run evs st)"
  unfolding run_def
  by (induction evs arbitrary: st) (simp_all add: history_inv_handle)

text \<open>
  Claim C2. Starting from the empty history, after every step of every finite sequence
  of events (pointer down, move, up and leave, among them every committing pointer-up;
  undo, redo, clear; the toolbar changes; the redraw effect) the bounds
  \<open>0 \<le> activeCount \<le> entries.length\<close> hold, that is
  \<open>-1 \<le> currentStrokeIndex \<le> strokes.length - 1\<close>.
\<close>

theorem history_bounds_invariant:
  assumes "entries st = []" and "activeCount st = 0" and "k \<le> length evs"
  shows "0 \<le> activeCount (run (take k evs) st)
    \<and> activeCount (run (take k evs) st) \<le> int (length (entries (run (take k evs) st)))
    \<and> - 1 \<le> currentStrokeIndex (run (take k evs) st)
    \<and> currentStrokeIndex (run (take k evs) st) \<le> int (length (strokes (run (take k evs) st))) - 1"
proof -
  have "history_inv st" using assms(1,2) by (simp add: history_inv_def)
  then have "history_inv (run (take k evs) st)" by (rule history_inv_run)
  then show ?thesis by (simp add: history_inv_def activeCount_def entries_def)
qed

theorem history_bounds_invariant_witness:
  "entries (mountedState 1) = [] \<and> activeCount (mountedState 1) = 0
   \<and> (5::nat) \<le> length exampleEvents
   \<and> activeCount (run (take 5 exampleEvents) (mountedState 1)) = 1
   \<and> 0 \<le> activeCount (run (take 5 exampleEvents) (mountedState 1))
   \<and> activeCount (run (take 5 exampleEvents) (mountedState 1))
        \<le> int (length (entries (run (take 5 exampleEvents) (mountedState 1))))"
proof -
  have a: "entries (mountedState 1) = []"
    by (simp add: entries_def mountedState_def initialState_def)
  have b: "activeCount (mountedState 1) = 0"
    by (simp add: activeCount_def mountedState_def initialState_def)
  have c: "(5::nat) \<le> length exampleEvents" by (simp add: exampleEvents_def)
  have d: "activeCount (run (take 5 exampleEvents) (mountedState 1)) = 1"
    by (simp add: exampleEvents_def rect0_def run_def activeCount_def mountedState_def
        initialState_def handlePointerDown_def handlePointerUp_def handleUndo_def
        handleRedo_def Let_def slice0_def newStroke_def)
  from history_bounds_invariant [OF a b c] a b c d show ?thesis by simp
qed

lemma slice0_take: "0 \<le> e \<Longrightarrow> slice0 xs e = take (nat e) xs"
  by (simp add: slice0_def Let_def min_def)

lemma newStroke_isDrawingRef: "newStroke (st\<lparr>isDrawingRef := b\<rparr>) = newStroke st"
  by (simp add: newStroke_def)

lemma handlePointerUp_commit:
  assumes "currentStrokeRef st \<noteq> []"
  shows "handlePointerUp st =
    st\<lparr>isDrawingRef := False,
       strokes := slice0 (strokes st) (currentStrokeIndex st + 1) @ [newStroke st],
       currentStrokeIndex := int (length (slice0 (strokes st) (currentStrokeIndex st + 1))),
       currentStrokeRef := []\<rparr>"
  using assms by (simp add: handlePointerUp_def Let_def newStroke_isDrawingRef)

text \<open>
  Claim C3. In a history state within its bounds, a committing pointer-up (an append of
  the stroke \<open>s\<close> built from the buffer) truncates \<open>entries\<close> to its first \<open>activeCount\<close>
  elements, appends \<open>s\<close> and sets \<open>activeCount\<close> to the new length; after an undo and then
  such an append, redo changes nothing and \<open>s\<close> is the last active stroke. From the empty
  history, the strokes \<open>A\<close>, \<open>B\<close>, an undo and the stroke \<open>C\<close> leave
  \<open>entries = [A, C]\<close>, \<open>activeCount = 2\<close> (it is 1 after the undo) and redo without effect.
\<close>

theorem append_truncates_and_prunes_redo:
  assumes "history_inv st" and "currentStrokeRef st \<noteq> []"
  shows "entries (handlePointerUp st) = take (nat (activeCount st)) (entries st) @ [newStroke st]
    \<and> activeCount (handlePointerUp st) = int (length (entries (handlePointerUp st)))
    \<and> handleRedo (handlePointerUp (handleUndo st)) = handlePointerUp (handleUndo st)
    \<and> activeCount (handlePointerUp (handleUndo st))
         = int (length (entries (handlePointerUp (handleUndo st))))
    \<and> last (entries (handlePointerUp (handleUndo st))) = newStroke st
    \<and> (entries st = [] \<longrightarrow>
         entries (handlePointerUp (handlePointerDown (Some r) xc yc (handleUndo
           (handlePointerUp (handlePointerDown (Some r) xb yb
             (handlePointerUp (handlePointerDown (Some r) xa ya st)))))))
           = [newStroke (handlePointerDown (Some r) xa ya st),
              newStroke (handlePointerDown (Some r) xc yc st)]
         \<and> activeCount (handleUndo
           (handlePointerUp (handlePointerDown (Some r) xb yb
             (handlePointerUp (handlePointerDown (Some r) xa ya st))))) = 1
         \<and> activeCount (handlePointerUp (handlePointerDown (Some r) xc yc (handleUndo
           (handlePointerUp (handlePointerDown (Some r) xb yb
             (handlePointerUp (handlePointerDown (Some r) xa ya st))))))) = 2
         \<and> handleRedo (handlePointerUp (handlePointerDown (Some r) xc yc (handleUndo
           (handlePointerUp (handlePointerDown (Some r) xb yb
             (handlePointerUp (handlePointerDown (Some r) xa ya st)))))))
           = handlePointerUp (handlePointerDown (Some r) xc yc (handleUndo
           (handlePointerUp (handlePointerDown (Some r) xb yb
             (handlePointerUp (handlePointerDown (Some r) xa ya st)))))))"
proof -
  have ge: "0 \<le> currentStrokeIndex st + 1" and le: "currentStrokeIndex st + 1 \<le> int (length (strokes st))"
    using assms(1) by (simp_all add: history_inv_def activeCount_def entries_def)
  have a: "entries (handlePointerUp st) = take (nat (activeCount st)) (entries st) @ [newStroke st]"
    using ge by (simp add: handlePointerUp_commit [OF assms(2)] entries_def activeCount_def slice0_take)
  have b: "activeCount (handlePointerUp st) = int (length (entries (handlePointerUp st)))"
    by (simp add: handlePointerUp_commit [OF assms(2)] entries_def activeCount_def)
  have u: "currentStrokeRef (handleUndo st) \<noteq> []"
    using assms(2) by (simp add: handleUndo_def)
  have nu: "newStroke (handleUndo st) = newStroke st"
    by (simp add: handleUndo_def newStroke_def)
  have c: "handleRedo (handlePointerUp (handleUndo st)) = handlePointerUp (handleUndo st)"
    by (simp add: handlePointerUp_commit [OF u] handleRedo_def)
  have d: "activeCount (handlePointerUp (handleUndo st))
         = int (length (entries (handlePointerUp (handleUndo st))))"
    by (simp add: handlePointerUp_commit [OF u] entries_def activeCount_def)
  have e: "last (entries (handlePointerUp (handleUndo st))) = newStroke st"
    by (simp add: handlePointerUp_commit [OF u] entries_def nu)
  have f: "entries st = [] \<Longrightarrow> currentStrokeIndex st = - 1"
    using ge le by (simp add: entries_def)
  show ?thesis
    apply (intro conjI impI a b c d e)
    subgoal using f by (simp add: entries_def activeCount_def handlePointerUp_def handlePointerDown_def handleUndo_def Let_def slice0_def newStroke_def)
    subgoal using f by (simp add: entries_def activeCount_def handlePointerUp_def handlePointerDown_def handleUndo_def Let_def slice0_def newStroke_def)
    subgoal using f by (simp add: entries_def activeCount_def handlePointerUp_def handlePointerDown_def handleUndo_def Let_def slice0_def newStroke_def)
    subgoal using f by (simp add: entries_def activeCount_def handlePointerUp_def handlePointerDown_def handleUndo_def handleRedo_def Let_def slice0_def newStroke_def)
    done
qed

text \<open>
  Claim C8. In every state, undo at \<open>activeCount = 0\<close> and redo at
  \<open>activeCount = entries.length\<close> return the state unchanged, so repeating them changes
  nothing either; undo never makes a non-negative \<open>activeCount\<close> negative; and neither
  undo nor redo ever changes \<open>entries\<close>.
\<close>

theorem undo_redo_boundary_noops:
  "(activeCount st = 0 \<longrightarrow> handleUndo st = st)
   \<and> (activeCount st = int (length (entries st)) \<longrightarrow> handleRedo st = st)
   \<and> (0 \<le> activeCount st \<longrightarrow> 0 \<le> activeCount (handleUndo st))
   \<and> (activeCount st = 0 \<longrightarrow> handleUndo (handleUndo st) = handleUndo st)
   \<and> (activeCount st = int (length (entries st)) \<longrightarrow> handleRedo (handleRedo st) = handleRedo st)
   \<and> entries (handleUndo st) = entries st
   \<and> entries (handleRedo st) = entries st"
  by (simp add: handleUndo_def handleRedo_def activeCount_def entries_def)

text \<open>
  Claim C10. In a history state within its bounds, redo after undo gives the state back
  when \<open>activeCount > 0\<close>, undo after redo gives it back when
  \<open>activeCount < entries.length\<close>, and \<open>entries\<close> is the same after either composition.
\<close>

theorem undo_redo_inverse:
  assumes "history_inv st"
  shows "(0 < activeCount st \<longrightarrow> handleRedo (handleUndo st) = st)
    \<and> (activeCount st < int (length (entries st)) \<longrightarrow> handleUndo (handleRedo st) = st)
    \<and> entries (handleRedo (handleUndo st)) = entries st
    \<and> entries (handleUndo (handleRedo st)) = entries st"
  using assms
  by (simp add: handleUndo_def handleRedo_def activeCount_def entries_def history_inv_def)

section \<open>The replay: proofs\<close>

lemma mkFan_surface [simp]: "mkFan (gl\<lparr>surface := fs\<rparr>) r c = mkFan gl r c"
  by (simp add: mkFan_def)

lemma addFans_Nil [simp]: "addFans [] st = st"
  by (cases "glRef st") (simp_all add: addFans_def)

lemma addFans_addFans [simp]: "addFans b (addFans a st) = addFans (a @ b) st"
  by (cases "glRef st") (simp_all add: addFans_def)

lemma glReady_addFans [simp]: "glReady (addFans fans st) = glReady st"
  by (simp add: glReady_def addFans_def)

lemma glRef_addFans:
  "glRef (addFans fans st) = map_option (\<lambda>gl. gl\<lparr>surface := surface gl @ fans\<rparr>) (glRef st)"
  by (simp add: addFans_def)

lemma drawStrokeCircle_addFans:
  assumes "glReady st" and "glRef st = Some gl"
  shows "drawStrokeCircle c r st = addFans [mkFan gl r c] st"
  using assms by (simp add: drawStrokeCircle_def addFans_def glReady_def)

lemma drawCircle_addFans:
  assumes "glReady st" and "glRef st = Some gl"
  shows "drawCircle c r st = addFans [mkFan gl r c] st"
  using assms by (simp add: drawCircle_def addFans_def glReady_def)

lemma fold_drawStrokeCircle:
  assumes "glReady st" and "glRef st = Some gl"
  shows "fold (\<lambda>p. drawStrokeCircle (f p) r) ps st = addFans (map (\<lambda>p. mkFan gl r (f p)) ps) st"
  using assms
proof (induction ps arbitrary: st gl)
  case Nil
  then show ?case by simp
next
  case (Cons p ps)
  let ?st = "addFans [mkFan gl r (f p)] st"
  have r: "glReady ?st" using Cons.prems by simp
  have g: "glRef ?st = Some (gl\<lparr>surface := surface gl @ [mkFan gl r (f p)]\<rparr>)"
    using Cons.prems by (simp add: glRef_addFans)
  show ?case
    using Cons.IH [OF r g] Cons.prems
    by (simp add: drawStrokeCircle_addFans)
qed

lemma fold_drawCircle:
  assumes "glReady st" and "glRef st = Some gl"
  shows "fold (\<lambda>p. drawCircle (f p) r) ps st = addFans (map (\<lambda>p. mkFan gl r (f p)) ps) st"
proof -
  have "drawCircle = drawStrokeCircle"
    by (intro ext) (simp add: drawCircle_def drawStrokeCircle_def)
  then show ?thesis using fold_drawStrokeCircle [OF assms] by simp
qed

lemma replaySegment_addFans:
  assumes "glReady st" and "glRef st = Some gl"
  shows "replaySegment pts lw i st = addFans (map (mkFan gl (lw / 2)) (segmentCenters pts i)) st"
  using fold_drawStrokeCircle [OF assms, of toNum]
  by (simp add: replaySegment_def segmentCenters_def Let_def o_def)

lemma fold_replaySegment:
  assumes "glReady st" and "glRef st = Some gl"
  shows "fold (replaySegment pts lw) ns st
    = addFans (map (mkFan gl (lw / 2)) (concat (map (segmentCenters pts) ns))) st"
  using assms
proof (induction ns arbitrary: st gl)
  case Nil
  then show ?case by simp
next
  case (Cons n ns)
  let ?fs = "map (mkFan gl (lw / 2)) (segmentCenters pts n)"
  have r: "glReady (addFans ?fs st)" using Cons.prems by simp
  have g: "glRef (addFans ?fs st) = Some (gl\<lparr>surface := surface gl @ ?fs\<rparr>)"
    using Cons.prems by (simp add: glRef_addFans)
  show ?case
    using Cons.IH [OF r g] Cons.prems
    by (simp add: replaySegment_addFans)
qed

lemma replayStroke_addFans:
  assumes "glReady st" and "glRef st = Some gl" and "points s \<noteq> []"
  shows "replayStroke s st =
     addFans (map (mkFan (strokeDrawState s gl) (lineWidth s * pixelRatioRef st / 2)) (strokeCenters s))
       (st\<lparr>glRef := Some (strokeDrawState s gl)\<rparr>)"
proof -
  let ?st1 = "st\<lparr>glRef := Some (strokeDrawState s gl)\<rparr>"
  have r: "glReady ?st1" using assms(1) by (simp add: glReady_def)
  have g: "glRef ?st1 = Some (strokeDrawState s gl)" by simp
  show ?thesis
    using assms(2,3) drawStrokeCircle_addFans [OF r g] fold_replaySegment [OF r g]
    by (simp add: replayStroke_def Let_def strokeCenters_def)
qed

lemma surfaceOf_addFans:
  "glRef st = Some gl \<Longrightarrow> surfaceOf (addFans fans st) = surface gl @ fans"
  by (simp add: surfaceOf_def addFans_def)

lemma glDrawState_strokeDrawState:
  "glDrawState (strokeDrawState s gl) = spec_drawState (tool s) (hexToRgb (color s)) (opacity s)"
  by (cases "tool s"; cases "hexToRgb (color s)")
    (simp_all add: glDrawState_def strokeDrawState_def spec_drawState_def Let_def)

lemma fanDrawState_mkFan: "fanDrawState (mkFan gl r c) = glDrawState gl"
  by (simp add: fanDrawState_def mkFan_def glDrawState_def)

lemma surface_strokeDrawState: "surface (strokeDrawState s gl) = surface gl"
  by (cases "hexToRgb (color s)") (simp add: strokeDrawState_def Let_def)

lemma mkFan_strokeDrawState:
  "mkFan (strokeDrawState s gl) r c =
     \<lparr>center = c, radius = r, segments = max 8 \<lfloor>r / 2\<rfloor>,
      fanBlend = fst (spec_drawState (tool s) (hexToRgb (color s)) (opacity s)),
      fanColor = fst (snd (spec_drawState (tool s) (hexToRgb (color s)) (opacity s))),
      fanAlpha = snd (snd (spec_drawState (tool s) (hexToRgb (color s)) (opacity s)))\<rparr>"
proof -
  have e: "spec_drawState (tool s) (hexToRgb (color s)) (opacity s)
      = (blendFunc (strokeDrawState s gl), u_color (strokeDrawState s gl),
         u_alpha (strokeDrawState s gl))"
    using glDrawState_strokeDrawState [of s gl] by (simp add: glDrawState_def)
  show ?thesis unfolding e by (simp add: mkFan_def)
qed

lemma replayStroke_replayFans:
  assumes "glReady st"
  shows "surfaceOf (replayStroke s st) = surfaceOf st @ replayFans (pixelRatioRef st) s
    \<and> glReady (replayStroke s st)
    \<and> pixelRatioRef (replayStroke s st) = pixelRatioRef st"
proof (cases "points s = []")
  case True
  then show ?thesis using assms by (simp add: replayStroke_def replayFans_def)
next
  case False
  from assms obtain gl where gl: "glRef st = Some gl" by (auto simp: glReady_def)
  have s0: "surfaceOf st = surface gl" using gl by (simp add: surfaceOf_def)
  let ?fans = "map (mkFan (strokeDrawState s gl) (lineWidth s * pixelRatioRef st / 2)) (strokeCenters s)"
  have f: "?fans = replayFans (pixelRatioRef st) s"
    using False by (simp add: replayFans_def mkFan_strokeDrawState)
  have rs: "replayStroke s st = addFans ?fans (st\<lparr>glRef := Some (strokeDrawState s gl)\<rparr>)"
    by (rule replayStroke_addFans [OF assms gl False])
  have a: "surfaceOf (replayStroke s st) = surface gl @ ?fans"
    unfolding rs by (simp add: surfaceOf_addFans surface_strokeDrawState)
  have r1: "glReady (st\<lparr>glRef := Some (strokeDrawState s gl)\<rparr>)"
    using assms by (simp add: glReady_def)
  have b: "glReady (replayStroke s st)"
    unfolding rs by (simp add: r1)
  have c: "pixelRatioRef (replayStroke s st) = pixelRatioRef st"
    unfolding rs by (simp add: addFans_def)
  show ?thesis using a b c s0 f by simp
qed

lemma fold_replayStroke_replayFans:
  assumes "glReady st"
  shows "surfaceOf (fold replayStroke ss st)
    = surfaceOf st @ concat (map (replayFans (pixelRatioRef st)) ss)"
  using assms
proof (induction ss arbitrary: st)
  case Nil
  then show ?case by simp
next
  case (Cons s ss)
  note step = replayStroke_replayFans [OF Cons.prems, of s]
  from step have r: "glReady (replayStroke s st)" by simp
  show ?case using Cons.IH [OF r] step by simp
qed

lemma redrawCanvas_replayFans:
  assumes "glReady st" and "colorLocationRef st" and "alphaLocationRef st"
  shows "surfaceOf (redrawCanvas st)
    = concat (map (replayFans (pixelRatioRef st))
               (slice0 (strokes st) (currentStrokeIndex st + 1)))"
proof -
  from assms(1) obtain gl where gl: "glRef st = Some gl" by (auto simp: glReady_def)
  let ?c = "st\<lparr>glRef := Some (gl\<lparr>clearColor := (1, 1, 1, 1), surface := []\<rparr>)\<rparr>"
  have rc: "glReady ?c" using assms(1) by (simp add: glReady_def)
  have sc: "surfaceOf ?c = []" by (simp add: surfaceOf_def)
  have "redrawCanvas st = fold replayStroke (slice0 (strokes st) (currentStrokeIndex st + 1)) ?c"
    using gl assms(2,3) by (simp add: redrawCanvas_def Let_def)
  then show ?thesis
    using fold_replayStroke_replayFans [OF rc, of "slice0 (strokes st) (currentStrokeIndex st + 1)"] sc
    by simp
qed

lemma fanDrawState_replayFans:
  "f \<in> set (replayFans pr s) \<Longrightarrow>
   fanDrawState f = spec_drawState (tool s) (hexToRgb (color s)) (opacity s)"
  by (auto simp: replayFans_def fanDrawState_def split: if_splits)

text \<open>
  Claim C4. When a stroke with at least one point is replayed, the draw state set for it
  is the one the specification gives for the stroke's own tool, colour and opacity, it is
  the draw state of the context afterwards, and it is the draw state of every fan the
  replay adds to the surface. The prescribed states are: pen, blend
  \<open>(SRC_ALPHA, ONE_MINUS_SRC_ALPHA)\<close>, the stroke colour, alpha \<open>opacity / 100\<close>;
  highlighter, blend \<open>(ONE, ONE_MINUS_SRC_ALPHA)\<close>, alpha \<open>(opacity / 100) * 0.1\<close> and
  each channel multiplied by that alpha; eraser, blend
  \<open>(SRC_ALPHA, ONE_MINUS_SRC_ALPHA)\<close>, white, alpha 1. For the full redraw: the surface
  left by \<open>redrawCanvas\<close> is exactly, in order, the fans of the stored active strokes
  \<open>strokes.slice(0, currentStrokeIndex + 1)\<close>, so the sequence of draw states on it is,
  stroke by stroke, the prescribed state of that stored stroke repeated once per stamp,
  whatever the live selection is.
\<close>

theorem replay_draw_state_per_tool:
  assumes "glReady st" and "glRef st = Some gl" and "points s \<noteq> []"
  shows "glDrawState (strokeDrawState s gl) = spec_drawState (tool s) (hexToRgb (color s)) (opacity s)
    \<and> map_option glDrawState (glRef (replayStroke s st))
         = Some (spec_drawState (tool s) (hexToRgb (color s)) (opacity s))
    \<and> take (length (surfaceOf st)) (surfaceOf (replayStroke s st)) = surfaceOf st
    \<and> (\<forall>f \<in> set (drop (length (surfaceOf st)) (surfaceOf (replayStroke s st))).
          fanDrawState f = spec_drawState (tool s) (hexToRgb (color s)) (opacity s))
    \<and> spec_drawState pen c op = ((SRC_ALPHA, ONE_MINUS_SRC_ALPHA), c, op / 100)
    \<and> spec_drawState highlighter (r, g, b) op
         = ((ONE, ONE_MINUS_SRC_ALPHA),
            (r * ((op / 100) * (1 / 10)), g * ((op / 100) * (1 / 10)), b * ((op / 100) * (1 / 10))),
            (op / 100) * (1 / 10))
    \<and> spec_drawState eraser c op = ((SRC_ALPHA, ONE_MINUS_SRC_ALPHA), (1, 1, 1), 1)
    \<and> (colorLocationRef st \<and> alphaLocationRef st \<longrightarrow>
         surfaceOf (redrawCanvas st)
           = concat (map (replayFans (pixelRatioRef st))
                      (slice0 (strokes st) (currentStrokeIndex st + 1)))
         \<and> map fanDrawState (surfaceOf (redrawCanvas st))
           = concat (map (\<lambda>k. replicate (length (strokeCenters k))
                                 (spec_drawState (tool k) (hexToRgb (color k)) (opacity k)))
                      (filter (\<lambda>k. points k \<noteq> [])
                         (slice0 (strokes st) (currentStrokeIndex st + 1)))))
    \<and> (\<forall>k \<in> set (slice0 (strokes st) (currentStrokeIndex st + 1)).
          \<forall>f \<in> set (replayFans (pixelRatioRef st) k).
            fanDrawState f = spec_drawState (tool k) (hexToRgb (color k)) (opacity k))"
proof -
  let ?gl = "strokeDrawState s gl"
  let ?fans = "map (mkFan ?gl (lineWidth s * pixelRatioRef st / 2)) (strokeCenters s)"
  have rs: "replayStroke s st = addFans ?fans (st\<lparr>glRef := Some ?gl\<rparr>)"
    by (rule replayStroke_addFans [OF assms])
  have sf: "surface ?gl = surface gl" by (rule surface_strokeDrawState)
  have s0: "surfaceOf st = surface gl" using assms(2) by (simp add: surfaceOf_def)
  have s1: "surfaceOf (replayStroke s st) = surface gl @ ?fans"
    unfolding rs by (simp add: surfaceOf_addFans sf)
  have d: "glDrawState (gl'\<lparr>surface := x\<rparr>) = glDrawState gl'" for gl' x
    by (simp add: glDrawState_def)
  have first: "glDrawState (strokeDrawState s gl) = spec_drawState (tool s) (hexToRgb (color s)) (opacity s)
    \<and> map_option glDrawState (glRef (replayStroke s st))
         = Some (spec_drawState (tool s) (hexToRgb (color s)) (opacity s))
    \<and> take (length (surfaceOf st)) (surfaceOf (replayStroke s st)) = surfaceOf st
    \<and> (\<forall>f \<in> set (drop (length (surfaceOf st)) (surfaceOf (replayStroke s st))).
          fanDrawState f = spec_drawState (tool s) (hexToRgb (color s)) (opacity s))
    \<and> spec_drawState pen c op = ((SRC_ALPHA, ONE_MINUS_SRC_ALPHA), c, op / 100)
    \<and> spec_drawState highlighter (r, g, b) op
         = ((ONE, ONE_MINUS_SRC_ALPHA),
            (r * ((op / 100) * (1 / 10)), g * ((op / 100) * (1 / 10)), b * ((op / 100) * (1 / 10))),
            (op / 100) * (1 / 10))
    \<and> spec_drawState eraser c op = ((SRC_ALPHA, ONE_MINUS_SRC_ALPHA), (1, 1, 1), 1)"
    unfolding s1 s0
    by (simp add: rs glRef_addFans d glDrawState_strokeDrawState fanDrawState_mkFan
        spec_drawState_def Let_def)
  have m: "map fanDrawState (replayFans pr k)
      = (if points k = [] then []
         else replicate (length (strokeCenters k))
                (spec_drawState (tool k) (hexToRgb (color k)) (opacity k)))" for pr k
    by (simp add: replayFans_def fanDrawState_def o_def map_replicate_const)
  have mc: "map fanDrawState (concat (map (replayFans pr) ks))
      = concat (map (\<lambda>k. replicate (length (strokeCenters k))
                             (spec_drawState (tool k) (hexToRgb (color k)) (opacity k)))
                 (filter (\<lambda>k. points k \<noteq> []) ks))" for pr ks
    by (induction ks) (simp_all add: m)
  have second: "surfaceOf (redrawCanvas st)
           = concat (map (replayFans (pixelRatioRef st))
                      (slice0 (strokes st) (currentStrokeIndex st + 1)))
         \<and> map fanDrawState (surfaceOf (redrawCanvas st))
           = concat (map (\<lambda>k. replicate (length (strokeCenters k))
                                 (spec_drawState (tool k) (hexToRgb (color k)) (opacity k)))
                      (filter (\<lambda>k. points k \<noteq> [])
                         (slice0 (strokes st) (currentStrokeIndex st + 1))))"
    if "colorLocationRef st" "alphaLocationRef st"
    using redrawCanvas_replayFans [OF assms(1) that] by (simp add: mc)
  have third: "\<forall>k \<in> set (slice0 (strokes st) (currentStrokeIndex st + 1)).
          \<forall>f \<in> set (replayFans (pixelRatioRef st) k).
            fanDrawState f = spec_drawState (tool k) (hexToRgb (color k)) (opacity k)"
    by (simp add: fanDrawState_replayFans)
  from first second third show ?thesis by blast
qed

lemma drawLine_addFans:
  assumes "glReady st" and "colorLocationRef st" and "alphaLocationRef st"
    and "glRef st = Some gl"
  shows "drawLine a b st =
     addFans (map (\<lambda>p. mkFan (liveDrawState st gl) (sizeN st * pixelRatioRef st / 2) (toNum p))
                (plotLine (js_round (px a)) (js_round (py a)) (js_round (px b)) (js_round (py b))))
       (st\<lparr>glRef := Some (liveDrawState st gl)\<rparr>)"
proof -
  let ?st1 = "st\<lparr>glRef := Some (liveDrawState st gl)\<rparr>"
  have r: "glReady ?st1" using assms(1) by (simp add: glReady_def)
  have g: "glRef ?st1 = Some (liveDrawState st gl)" by simp
  show ?thesis
    using assms fold_drawCircle [OF r g, of toNum]
    by (simp add: drawLine_def Let_def glReady_def)
qed

lemma strokeDrawState_highlighter:
  "tool s = highlighter \<Longrightarrow>
   strokeDrawState s gl =
     gl\<lparr>blendFunc := (ONE, ONE_MINUS_SRC_ALPHA),
        u_color := (fst (hexToRgb (color s)) * ((opacity s / 100) * (1 / 10)),
                    fst (snd (hexToRgb (color s))) * ((opacity s / 100) * (1 / 10)),
                    snd (snd (hexToRgb (color s))) * ((opacity s / 100) * (1 / 10))),
        u_alpha := (opacity s / 100) * (1 / 10)\<rparr>"
  by (cases "hexToRgb (color s)") (simp add: strokeDrawState_def Let_def)

lemma liveDrawState_highlighter:
  "selectedTool st = highlighter \<Longrightarrow>
   liveDrawState st gl =
     gl\<lparr>blendFunc := (ONE, ONE_MINUS_SRC_ALPHA),
        u_color := (fst (hexToRgb (selectedColor st)) * ((highlighterOpacity st / 100) * (1 / 10)),
                    fst (snd (hexToRgb (selectedColor st))) * ((highlighterOpacity st / 100) * (1 / 10)),
                    snd (snd (hexToRgb (selectedColor st))) * ((highlighterOpacity st / 100) * (1 / 10))),
        u_alpha := (highlighterOpacity st / 100) * (1 / 10)\<rparr>"
  by (cases "hexToRgb (selectedColor st)") (simp add: liveDrawState_def Let_def)

text \<open>
  Claim C5. For an opacity between 0 and 100 the highlighter alpha is
  \<open>(opacity / 100) * 0.1\<close>, so at most \<open>0.1\<close>; it is \<open>0.1\<close> at opacity 100 and 0 at
  opacity 0; and the colour channels submitted are the channels of the colour multiplied
  by that alpha. This holds for the replay of a stored highlighter stroke
  (\<open>redrawCanvas\<close>) and for the live segment (\<open>drawLine\<close>), whose contexts hold these
  uniforms afterwards.
\<close>

theorem highlighter_density_cap:
  assumes "tool s = highlighter" and "0 \<le> opacity s" and "opacity s \<le> 100"
    and "selectedTool st = highlighter" and "0 \<le> highlighterOpacity st"
    and "highlighterOpacity st \<le> 100"
    and "glReady st" and "colorLocationRef st" and "alphaLocationRef st"
    and "glRef st = Some gl" and "points s \<noteq> []"
  shows "u_alpha (strokeDrawState s gl) = (opacity s / 100) * (1 / 10)
    \<and> u_alpha (strokeDrawState s gl) \<le> 1 / 10
    \<and> u_alpha (strokeDrawState (s\<lparr>opacity := 100\<rparr>) gl) = 1 / 10
    \<and> u_alpha (strokeDrawState (s\<lparr>opacity := 0\<rparr>) gl) = 0
    \<and> u_color (strokeDrawState s gl)
         = (fst (hexToRgb (color s)) * u_alpha (strokeDrawState s gl),
            fst (snd (hexToRgb (color s))) * u_alpha (strokeDrawState s gl),
            snd (snd (hexToRgb (color s))) * u_alpha (strokeDrawState s gl))
    \<and> map_option (\<lambda>g. (u_color g, u_alpha g)) (glRef (replayStroke s st))
         = Some (u_color (strokeDrawState s gl), u_alpha (strokeDrawState s gl))
    \<and> u_alpha (liveDrawState st gl) = (highlighterOpacity st / 100) * (1 / 10)
    \<and> u_alpha (liveDrawState st gl) \<le> 1 / 10
    \<and> u_alpha (liveDrawState (st\<lparr>highlighterOpacity := 100\<rparr>) gl) = 1 / 10
    \<and> u_alpha (liveDrawState (st\<lparr>highlighterOpacity := 0\<rparr>) gl) = 0
    \<and> u_color (liveDrawState st gl)
         = (fst (hexToRgb (selectedColor st)) * u_alpha (liveDrawState st gl),
            fst (snd (hexToRgb (selectedColor st))) * u_alpha (liveDrawState st gl),
            snd (snd (hexToRgb (selectedColor st))) * u_alpha (liveDrawState st gl))
    \<and> map_option (\<lambda>g. (u_color g, u_alpha g)) (glRef (drawLine a b st))
         = Some (u_color (liveDrawState st gl), u_alpha (liveDrawState st gl))"
proof -
  have s100: "tool (s\<lparr>opacity := 100\<rparr>) = highlighter" and s0: "tool (s\<lparr>opacity := 0\<rparr>) = highlighter"
    using assms(1) by simp_all
  have l100: "selectedTool (st\<lparr>highlighterOpacity := 100\<rparr>) = highlighter"
    and l0: "selectedTool (st\<lparr>highlighterOpacity := 0\<rparr>) = highlighter"
    using assms(4) by simp_all
  have rs: "glRef (replayStroke s st)
      = Some ((strokeDrawState s gl)\<lparr>surface := surface (strokeDrawState s gl) @
           map (mkFan (strokeDrawState s gl) (lineWidth s * pixelRatioRef st / 2)) (strokeCenters s)\<rparr>)"
    by (simp add: replayStroke_addFans [OF assms(7,10,11)] glRef_addFans)
  have dl: "glRef (drawLine a b st)
      = Some ((liveDrawState st gl)\<lparr>surface := surface (liveDrawState st gl) @
           map (\<lambda>p. mkFan (liveDrawState st gl) (sizeN st * pixelRatioRef st / 2) (toNum p))
                (plotLine (js_round (px a)) (js_round (py a)) (js_round (px b)) (js_round (py b)))\<rparr>)"
    by (simp add: drawLine_addFans [OF assms(7,8,9,10)] glRef_addFans)
  have c1: "(opacity s / 100) * (1 / 10) \<le> 1 / 10" using assms(3) by simp
  have c2: "(highlighterOpacity st / 100) * (1 / 10) \<le> 1 / 10" using assms(6) by simp
  show ?thesis
    unfolding rs dl
    using c1 c2
    by (simp add: strokeDrawState_highlighter [OF assms(1)] strokeDrawState_highlighter [OF s100]
        strokeDrawState_highlighter [OF s0] liveDrawState_highlighter [OF assms(4)]
        liveDrawState_highlighter [OF l100] liveDrawState_highlighter [OF l0])
qed

section \<open>Taps: proofs\<close>

lemma handlePointerDown_Some:
  "handlePointerDown (Some r) cx cy st =
     st\<lparr>isDrawingRef := True,
        lastPointRef := \<lparr>px = (cx - rectLeft r) * pixelRatioRef st, py = (cy - rectTop r) * pixelRatioRef st\<rparr>,
        currentStrokeRef := [\<lparr>px = (cx - rectLeft r) * pixelRatioRef st, py = (cy - rectTop r) * pixelRatioRef st\<rparr>]\<rparr>"
  by (simp add: handlePointerDown_def Let_def)

text \<open>
  Claim C7, as amended. A pointer-down that records its point, followed by a pointer-up
  with no move in between, commits exactly one stroke: \<open>entries\<close> is truncated to the
  active prefix and the new stroke, whose points are the single pointer-down point, is
  appended; \<open>activeCount\<close> becomes the new length and the buffer is emptied.
\<close>

theorem tap_commits_one_point_stroke:
  "entries (handlePointerUp (handlePointerDown (Some r) cx cy st))
     = slice0 (entries st) (activeCount st) @ [newStroke (handlePointerDown (Some r) cx cy st)]
   \<and> points (newStroke (handlePointerDown (Some r) cx cy st))
     = [\<lparr>px = (cx - rectLeft r) * pixelRatioRef st, py = (cy - rectTop r) * pixelRatioRef st\<rparr>]
   \<and> activeCount (handlePointerUp (handlePointerDown (Some r) cx cy st))
     = int (length (entries (handlePointerUp (handlePointerDown (Some r) cx cy st))))
   \<and> length (entries (handlePointerUp (handlePointerDown (Some r) cx cy st))) > 0
   \<and> currentStrokeRef (handlePointerUp (handlePointerDown (Some r) cx cy st)) = []"
  by (simp add: handlePointerDown_Some handlePointerUp_def Let_def entries_def activeCount_def
      newStroke_def)

text \<open>
  Claim C7, as stated, fails: a tap at \<open>(10, 10)\<close> on the freshly mounted component
  changes the history.
\<close>

theorem tap_abandoned_counterexample:
  "entries (handlePointerUp (handlePointerDown (Some rect0) 10 10 (mountedState 1)))
     \<noteq> entries (mountedState 1)"
  by (simp add: handlePointerDown_Some handlePointerUp_def Let_def entries_def
      mountedState_def initialState_def slice0_def)

text \<open>
  Claim C6. At device pixel ratio 1, with the pen and size 5, a pointer-down at
  \<open>(10, 10)\<close> of the canvas followed by a pointer-up commits exactly one stroke, whose
  points are \<open>[(10, 10)]\<close>, and replaying that stroke adds exactly one stamp, of radius
  \<open>2.5\<close> at \<open>(10, 10)\<close>. From the empty history the history is that one stroke and the
  full redraw leaves exactly that one stamp on the surface.
\<close>

theorem single_tap_scenario:
  assumes "glReady st" and "colorLocationRef st" and "alphaLocationRef st"
    and "pixelRatioRef st = 1" and "selectedTool st = pen" and "sizeN st = 5"
    and "history_inv st"
    and "clientX - rectLeft r = 10" and "clientY - rectTop r = 10"
  shows "entries (handlePointerUp (handlePointerDown (Some r) clientX clientY st))
      = take (nat (activeCount st)) (entries st)
          @ [newStroke (handlePointerDown (Some r) clientX clientY st)]
    \<and> points (newStroke (handlePointerDown (Some r) clientX clientY st)) = [\<lparr>px = 10, py = 10\<rparr>]
    \<and> tool (newStroke (handlePointerDown (Some r) clientX clientY st)) = pen
    \<and> lineWidth (newStroke (handlePointerDown (Some r) clientX clientY st)) = 5
    \<and> take (length (surfaceOf (handlePointerUp (handlePointerDown (Some r) clientX clientY st))))
         (surfaceOf (replayStroke (newStroke (handlePointerDown (Some r) clientX clientY st))
            (handlePointerUp (handlePointerDown (Some r) clientX clientY st))))
       = surfaceOf (handlePointerUp (handlePointerDown (Some r) clientX clientY st))
    \<and> map (\<lambda>f. (center f, radius f))
         (drop (length (surfaceOf (handlePointerUp (handlePointerDown (Some r) clientX clientY st))))
           (surfaceOf (replayStroke (newStroke (handlePointerDown (Some r) clientX clientY st))
              (handlePointerUp (handlePointerDown (Some r) clientX clientY st)))))
       = [(\<lparr>px = 10, py = 10\<rparr>, 5 / 2)]
    \<and> (entries st = [] \<longrightarrow>
         entries (handlePointerUp (handlePointerDown (Some r) clientX clientY st))
           = [newStroke (handlePointerDown (Some r) clientX clientY st)]
         \<and> map (\<lambda>f. (center f, radius f))
             (surfaceOf (redrawCanvas (handlePointerUp (handlePointerDown (Some r) clientX clientY st))))
           = [(\<lparr>px = 10, py = 10\<rparr>, 5 / 2)])"
proof -
  let ?d = "handlePointerDown (Some r) clientX clientY st"
  let ?u = "handlePointerUp ?d"
  let ?s = "newStroke ?d"
  obtain gl where gl: "glRef st = Some gl" using assms(1) by (auto simp: glReady_def)
  have ge: "0 \<le> currentStrokeIndex st + 1" and le: "currentStrokeIndex st + 1 \<le> int (length (strokes st))"
    using assms(7) by (simp_all add: history_inv_def activeCount_def entries_def)
  have pts: "points ?s = [\<lparr>px = 10, py = 10\<rparr>]"
    using assms(4,8,9) by (simp add: handlePointerDown_Some newStroke_def)
  have tl: "tool ?s = pen" "lineWidth ?s = 5"
    using assms(5,6) by (simp_all add: handlePointerDown_Some newStroke_def)
  have ne: "currentStrokeRef ?d \<noteq> []" by (simp add: handlePointerDown_Some)
  have u: "?u = ?d\<lparr>isDrawingRef := False,
       strokes := slice0 (strokes ?d) (currentStrokeIndex ?d + 1) @ [?s],
       currentStrokeIndex := int (length (slice0 (strokes ?d) (currentStrokeIndex ?d + 1))),
       currentStrokeRef := []\<rparr>"
    by (rule handlePointerUp_commit [OF ne])
  have a: "entries ?u = take (nat (activeCount st)) (entries st) @ [?s]"
    using ge by (subst u) (simp add: entries_def activeCount_def slice0_take handlePointerDown_Some)
  have ru: "glReady ?u" using assms(1) by (subst u) (simp add: glReady_def handlePointerDown_Some)
  have gu: "glRef ?u = Some gl" using gl by (subst u) (simp add: handlePointerDown_Some)
  have pu: "pixelRatioRef ?u = 1" using assms(4) by (subst u) (simp add: handlePointerDown_Some)
  have sne: "points ?s \<noteq> []" using pts by simp
  have sc: "strokeCenters ?s = [\<lparr>px = 10, py = 10\<rparr>]" using pts by (simp add: strokeCenters_def)
  have sf: "surface (strokeDrawState ?s gl') = surface gl'" for gl'
    by (cases "hexToRgb (color ?s)") (simp add: strokeDrawState_def Let_def)
  have su: "surfaceOf ?u = surface gl" using gu by (simp add: surfaceOf_def)
  have rp: "surfaceOf (replayStroke ?s ?u)
      = surface gl @ [mkFan (strokeDrawState ?s gl) (5 / 2) \<lparr>px = 10, py = 10\<rparr>]"
    by (simp add: replayStroke_addFans [OF ru gu sne] surfaceOf_addFans sf sc tl pu)
  have m: "center (mkFan g rr c) = c" "radius (mkFan g rr c) = rr" for g rr c
    by (simp_all add: mkFan_def)
  have full: "map (\<lambda>f. (center f, radius f)) (surfaceOf (redrawCanvas ?u)) = [(\<lparr>px = 10, py = 10\<rparr>, 5 / 2)]"
    and e1: "entries ?u = [?s]"
    if e: "entries st = []"
  proof -
    show e1: "entries ?u = [?s]" using a e by simp
    from e have idx: "currentStrokeIndex st = - 1" using ge le by (simp add: entries_def)
    have cu: "colorLocationRef ?u" "alphaLocationRef ?u"
      using assms(2,3) by (subst u, simp add: handlePointerDown_Some)+
    have st: "strokes ?u = [?s]" using e1 by (simp add: entries_def)
    have iu: "currentStrokeIndex ?u = 0"
      using e idx by (subst u) (simp add: entries_def slice0_def handlePointerDown_Some)
    let ?c = "?u\<lparr>glRef := Some (gl\<lparr>clearColor := (1, 1, 1, 1), surface := []\<rparr>)\<rparr>"
    have rc: "glReady ?c" using ru by (simp add: glReady_def)
    have gc: "glRef ?c = Some (gl\<lparr>clearColor := (1, 1, 1, 1), surface := []\<rparr>)" by simp
    have pc: "pixelRatioRef ?c = 1" using pu by simp
    have "redrawCanvas ?u = replayStroke ?s ?c"
      using gu cu st iu by (simp add: redrawCanvas_def Let_def slice0_def)
    then show "map (\<lambda>f. (center f, radius f)) (surfaceOf (redrawCanvas ?u)) = [(\<lparr>px = 10, py = 10\<rparr>, 5 / 2)]"
      by (simp add: replayStroke_addFans [OF rc gc sne] surfaceOf_addFans sf sc tl pc m)
  qed
  show ?thesis
    unfolding rp su
    using a pts tl full e1 by (simp add: m)
qed

section \<open>The claims at concrete inputs\<close>

lemma downState_eval:
  "downState = (mountedState 1)\<lparr>isDrawingRef := True, lastPointRef := \<lparr>px = 10, py = 10\<rparr>,
      currentStrokeRef := [\<lparr>px = 10, py = 10\<rparr>]\<rparr>"
  by (simp add: downState_def handlePointerDown_Some rect0_def mountedState_def)

lemma tapState_eval:
  "tapState = (mountedState 1)\<lparr>isDrawingRef := False, lastPointRef := \<lparr>px = 10, py = 10\<rparr>,
      currentStrokeRef := [],
      strokes := [\<lparr>points = [\<lparr>px = 10, py = 10\<rparr>], color = ''#000000'', tool = pen,
                   lineWidth = 5, opacity = 100\<rparr>],
      currentStrokeIndex := 0\<rparr>"
  by (simp add: tapState_def downState_eval handlePointerUp_def Let_def newStroke_def slice0_def
      mountedState_def initialState_def)

lemma mountedState_fields:
  "strokes (mountedState d) = []" "currentStrokeIndex (mountedState d) = - 1"
  "glRef (mountedState d) = Some mountedGL" "programRef (mountedState d)"
  "positionBufferRef (mountedState d)" "colorLocationRef (mountedState d)"
  "alphaLocationRef (mountedState d)" "pixelRatioRef (mountedState 1) = 1"
  "selectedTool (mountedState d) = pen" "sizeN (mountedState d) = 5"
  by (simp_all add: mountedState_def initialState_def)

theorem append_truncates_and_prunes_redo_witness:
  "history_inv downState \<and> currentStrokeRef downState \<noteq> [] \<and> entries downState = []
   \<and> entries (handlePointerUp downState) = [newStroke downState]
   \<and> activeCount (handlePointerUp downState) = 1
   \<and> handleRedo (handlePointerUp (handleUndo downState)) = handlePointerUp (handleUndo downState)
   \<and> last (entries (handlePointerUp (handleUndo downState))) = newStroke downState
   \<and> activeCount (handlePointerUp (handlePointerDown (Some rect0) 5 6 (handleUndo
           (handlePointerUp (handlePointerDown (Some rect0) 3 4
             (handlePointerUp (handlePointerDown (Some rect0) 1 2 downState))))))) = 2"
proof -
  have h1: "history_inv downState"
    by (simp add: downState_eval history_inv_def activeCount_def entries_def mountedState_fields)
  have h2: "currentStrokeRef downState \<noteq> []" by (simp add: downState_eval)
  have h3: "entries downState = []" by (simp add: downState_eval entries_def mountedState_fields)
  from append_truncates_and_prunes_redo [OF h1 h2, of rect0 5 6 3 4 1 2] h1 h2 h3
  show ?thesis by simp
qed

theorem undo_redo_boundary_noops_witness:
  "activeCount (mountedState 1) = 0 \<and> handleUndo (mountedState 1) = mountedState 1
   \<and> activeCount tapState = int (length (entries tapState)) \<and> handleRedo tapState = tapState
   \<and> 0 \<le> activeCount tapState \<and> 0 \<le> activeCount (handleUndo tapState)"
proof -
  have a: "activeCount (mountedState 1) = 0" by (simp add: activeCount_def mountedState_fields)
  have b: "activeCount tapState = int (length (entries tapState))"
    by (simp add: tapState_eval activeCount_def entries_def)
  have c: "0 \<le> activeCount tapState" by (simp add: tapState_eval activeCount_def)
  from undo_redo_boundary_noops [of "mountedState 1"] undo_redo_boundary_noops [of tapState] a b c
  show ?thesis by simp
qed

theorem undo_redo_inverse_witness:
  "history_inv tapState \<and> 0 < activeCount tapState
   \<and> handleRedo (handleUndo tapState) = tapState
   \<and> history_inv (handleUndo tapState)
   \<and> activeCount (handleUndo tapState) < int (length (entries (handleUndo tapState)))
   \<and> handleUndo (handleRedo (handleUndo tapState)) = handleUndo tapState"
proof -
  have a: "history_inv tapState"
    by (simp add: tapState_eval history_inv_def activeCount_def entries_def)
  have b: "0 < activeCount tapState" by (simp add: tapState_eval activeCount_def)
  have c: "history_inv (handleUndo tapState)"
    by (simp add: tapState_eval handleUndo_def history_inv_def activeCount_def entries_def)
  have d: "activeCount (handleUndo tapState) < int (length (entries (handleUndo tapState)))"
    by (simp add: tapState_eval handleUndo_def activeCount_def entries_def)
  from undo_redo_inverse [OF a] undo_redo_inverse [OF c] a b c d
  show ?thesis by simp
qed

lemma strokeCenters_examplePenStroke:
  "strokeCenters examplePenStroke = [\<lparr>px = 0, py = 0\<rparr>, \<lparr>px = 1, py = 0\<rparr>, \<lparr>px = 2, py = 1\<rparr>]"
  by code_simp

lemma strokeCenters_exampleHighlight: "strokeCenters exampleHighlight = [\<lparr>px = 10, py = 10\<rparr>]"
  by (simp add: strokeCenters_def exampleHighlight_def)

lemma spec_drawState_exampleHighlight:
  "spec_drawState (tool exampleHighlight) (hexToRgb (color exampleHighlight))
      (opacity exampleHighlight) = ((ONE, ONE_MINUS_SRC_ALPHA), (1 / 20, 1 / 25, 0), 1 / 20)"
  by (simp add: exampleHighlight_def spec_drawState_def hexToRgb_def parseInt16_def
      hexDigitValue_def Let_def)

lemma spec_drawState_examplePenStroke:
  "spec_drawState (tool examplePenStroke) (hexToRgb (color examplePenStroke))
      (opacity examplePenStroke) = ((SRC_ALPHA, ONE_MINUS_SRC_ALPHA), (0, 122 / 255, 1), 4 / 5)"
  by (simp add: examplePenStroke_def spec_drawState_def hexToRgb_def parseInt16_def
      hexDigitValue_def Let_def)

theorem replay_draw_state_per_tool_witness:
  "glReady (mountedState 1) \<and> glRef (mountedState 1) = Some mountedGL
   \<and> points exampleHighlight \<noteq> []
   \<and> glDrawState (strokeDrawState exampleHighlight mountedGL)
       = ((ONE, ONE_MINUS_SRC_ALPHA), (1 / 20, 1 / 25, 0), 1 / 20)
   \<and> surfaceOf (mountedState 1) = []
   \<and> length (surfaceOf (replayStroke exampleHighlight (mountedState 1))) = 1
   \<and> fanDrawState (hd (surfaceOf (replayStroke exampleHighlight (mountedState 1))))
       = ((ONE, ONE_MINUS_SRC_ALPHA), (1 / 20, 1 / 25, 0), 1 / 20)
   \<and> glReady exampleRedrawState \<and> glRef exampleRedrawState = Some mountedGL
   \<and> colorLocationRef exampleRedrawState \<and> alphaLocationRef exampleRedrawState
   \<and> selectedTool exampleRedrawState = eraser
   \<and> slice0 (strokes exampleRedrawState) (currentStrokeIndex exampleRedrawState + 1)
       = [exampleHighlight, examplePenStroke]
   \<and> map fanDrawState (surfaceOf (redrawCanvas exampleRedrawState))
       = [((ONE, ONE_MINUS_SRC_ALPHA), (1 / 20, 1 / 25, 0), 1 / 20),
          ((SRC_ALPHA, ONE_MINUS_SRC_ALPHA), (0, 122 / 255, 1), 4 / 5),
          ((SRC_ALPHA, ONE_MINUS_SRC_ALPHA), (0, 122 / 255, 1), 4 / 5),
          ((SRC_ALPHA, ONE_MINUS_SRC_ALPHA), (0, 122 / 255, 1), 4 / 5)]
   \<and> map (\<lambda>f. (center f, radius f)) (surfaceOf (redrawCanvas exampleRedrawState))
       = [(\<lparr>px = 10, py = 10\<rparr>, 5 / 2), (\<lparr>px = 0, py = 0\<rparr>, 2),
          (\<lparr>px = 1, py = 0\<rparr>, 2), (\<lparr>px = 2, py = 1\<rparr>, 2)]
   \<and> examplePenStroke
       \<in> set (slice0 (strokes exampleRedrawState) (currentStrokeIndex exampleRedrawState + 1))
   \<and> replayFans (pixelRatioRef exampleRedrawState) examplePenStroke \<noteq> []
   \<and> fanDrawState (hd (replayFans (pixelRatioRef exampleRedrawState) examplePenStroke))
       = ((SRC_ALPHA, ONE_MINUS_SRC_ALPHA), (0, 122 / 255, 1), 4 / 5)"
proof -
  have r: "glReady (mountedState 1)" by (simp add: glReady_def mountedState_fields)
  have g: "glRef (mountedState 1) = Some mountedGL" by (simp add: mountedState_fields)
  have p: "points exampleHighlight \<noteq> []" by (simp add: exampleHighlight_def)
  have s0: "surfaceOf (mountedState 1) = []"
    by (simp add: surfaceOf_def mountedState_fields mountedGL_def)
  have "surfaceOf (replayStroke exampleHighlight (mountedState 1))
      = surface (strokeDrawState exampleHighlight mountedGL)
        @ map (mkFan (strokeDrawState exampleHighlight mountedGL)
                (lineWidth exampleHighlight * pixelRatioRef (mountedState 1) / 2))
            (strokeCenters exampleHighlight)"
    by (simp add: replayStroke_addFans [OF r g p] surfaceOf_addFans)
  then have l: "length (surfaceOf (replayStroke exampleHighlight (mountedState 1))) = 1"
    by (simp add: surface_strokeDrawState strokeCenters_exampleHighlight mountedGL_def)
  note v = spec_drawState_exampleHighlight
  have h: "hd (surfaceOf (replayStroke exampleHighlight (mountedState 1)))
      \<in> set (drop (length (surfaceOf (mountedState 1)))
                (surfaceOf (replayStroke exampleHighlight (mountedState 1))))"
    using l unfolding s0 by (cases "surfaceOf (replayStroke exampleHighlight (mountedState 1))") simp_all
  note t1 = replay_draw_state_per_tool [OF r g p]
  have first: "glDrawState (strokeDrawState exampleHighlight mountedGL)
       = ((ONE, ONE_MINUS_SRC_ALPHA), (1 / 20, 1 / 25, 0), 1 / 20)
     \<and> fanDrawState (hd (surfaceOf (replayStroke exampleHighlight (mountedState 1))))
       = ((ONE, ONE_MINUS_SRC_ALPHA), (1 / 20, 1 / 25, 0), 1 / 20)"
    using t1 h unfolding v by blast
  have r': "glReady exampleRedrawState"
    and g': "glRef exampleRedrawState = Some mountedGL"
    and c': "colorLocationRef exampleRedrawState" "alphaLocationRef exampleRedrawState"
    and e': "selectedTool exampleRedrawState = eraser"
    and pr: "pixelRatioRef exampleRedrawState = 1"
    by (simp_all add: exampleRedrawState_def glReady_def mountedState_fields)
  have sl: "slice0 (strokes exampleRedrawState) (currentStrokeIndex exampleRedrawState + 1)
       = [exampleHighlight, examplePenStroke]"
    by (simp add: exampleRedrawState_def slice0_def)
  have pp: "points examplePenStroke \<noteq> []" by (simp add: examplePenStroke_def)
  have lw: "lineWidth exampleHighlight = 5" "lineWidth examplePenStroke = 4"
    by (simp_all add: exampleHighlight_def examplePenStroke_def)
  note t2 = replay_draw_state_per_tool [OF r' g' p]
  from t2 c' have rd: "surfaceOf (redrawCanvas exampleRedrawState)
      = concat (map (replayFans (pixelRatioRef exampleRedrawState))
          (slice0 (strokes exampleRedrawState) (currentStrokeIndex exampleRedrawState + 1)))"
    by blast
  have ds: "map fanDrawState (surfaceOf (redrawCanvas exampleRedrawState))
       = [((ONE, ONE_MINUS_SRC_ALPHA), (1 / 20, 1 / 25, 0), 1 / 20),
          ((SRC_ALPHA, ONE_MINUS_SRC_ALPHA), (0, 122 / 255, 1), 4 / 5),
          ((SRC_ALPHA, ONE_MINUS_SRC_ALPHA), (0, 122 / 255, 1), 4 / 5),
          ((SRC_ALPHA, ONE_MINUS_SRC_ALPHA), (0, 122 / 255, 1), 4 / 5)]"
    unfolding rd sl pr
    by (simp add: replayFans_def p pp strokeCenters_exampleHighlight
        strokeCenters_examplePenStroke spec_drawState_exampleHighlight
        spec_drawState_examplePenStroke fanDrawState_def)
  have cr: "map (\<lambda>f. (center f, radius f)) (surfaceOf (redrawCanvas exampleRedrawState))
       = [(\<lparr>px = 10, py = 10\<rparr>, 5 / 2), (\<lparr>px = 0, py = 0\<rparr>, 2),
          (\<lparr>px = 1, py = 0\<rparr>, 2), (\<lparr>px = 2, py = 1\<rparr>, 2)]"
    unfolding rd sl pr
    by (simp add: replayFans_def p pp strokeCenters_exampleHighlight
        strokeCenters_examplePenStroke lw)
  have m: "examplePenStroke
       \<in> set (slice0 (strokes exampleRedrawState) (currentStrokeIndex exampleRedrawState + 1))"
    unfolding sl by simp
  have ne: "replayFans (pixelRatioRef exampleRedrawState) examplePenStroke \<noteq> []"
    by (simp add: replayFans_def pp strokeCenters_examplePenStroke)
  then have hm: "hd (replayFans (pixelRatioRef exampleRedrawState) examplePenStroke)
      \<in> set (replayFans (pixelRatioRef exampleRedrawState) examplePenStroke)"
    by simp
  have last: "fanDrawState (hd (replayFans (pixelRatioRef exampleRedrawState) examplePenStroke))
       = ((SRC_ALPHA, ONE_MINUS_SRC_ALPHA), (0, 122 / 255, 1), 4 / 5)"
  proof -
    from t2 m hm
    have "fanDrawState (hd (replayFans (pixelRatioRef exampleRedrawState) examplePenStroke))
        = spec_drawState (tool examplePenStroke) (hexToRgb (color examplePenStroke))
            (opacity examplePenStroke)"
      by blast
    then show ?thesis by (simp only: spec_drawState_examplePenStroke)
  qed
  from first show ?thesis
    by (intro conjI r g p s0 l r' g' c' e' sl ds cr m ne last) simp_all
qed

theorem highlighter_density_cap_witness:
  "tool exampleHighlight = highlighter \<and> 0 \<le> opacity exampleHighlight
   \<and> opacity exampleHighlight \<le> 100
   \<and> selectedTool highlighterState = highlighter \<and> 0 \<le> highlighterOpacity highlighterState
   \<and> highlighterOpacity highlighterState \<le> 100
   \<and> glReady highlighterState \<and> colorLocationRef highlighterState
   \<and> alphaLocationRef highlighterState \<and> glRef highlighterState = Some mountedGL
   \<and> points exampleHighlight \<noteq> []
   \<and> u_alpha (strokeDrawState exampleHighlight mountedGL) = 1 / 20
   \<and> u_color (strokeDrawState exampleHighlight mountedGL) = (1 / 20, 1 / 25, 0)
   \<and> u_alpha (liveDrawState highlighterState mountedGL) = 1 / 10
   \<and> map_option (\<lambda>g. (u_color g, u_alpha g))
        (glRef (replayStroke exampleHighlight highlighterState))
       = Some ((1 / 20, 1 / 25, 0), 1 / 20)
   \<and> map_option (\<lambda>g. (u_color g, u_alpha g))
        (glRef (drawLine \<lparr>px = 0, py = 0\<rparr> \<lparr>px = 10, py = 0\<rparr> highlighterState))
       = Some ((0, 0, 0), 1 / 10)"
proof -
  have a: "tool exampleHighlight = highlighter" "0 \<le> opacity exampleHighlight"
    "opacity exampleHighlight \<le> 100" "points exampleHighlight \<noteq> []"
    by (simp_all add: exampleHighlight_def)
  have b: "selectedTool highlighterState = highlighter" "0 \<le> highlighterOpacity highlighterState"
    "highlighterOpacity highlighterState \<le> 100" "glReady highlighterState"
    "colorLocationRef highlighterState" "alphaLocationRef highlighterState"
    "glRef highlighterState = Some mountedGL"
    by (simp_all add: highlighterState_def glReady_def mountedState_fields)
  have c: "hexToRgb (color exampleHighlight) = (1, 4 / 5, 0)"
    by (simp add: exampleHighlight_def hexToRgb_def parseInt16_def hexDigitValue_def)
  have d: "hexToRgb (selectedColor highlighterState) = (0, 0, 0)"
    by (simp add: highlighterState_def mountedState_def initialState_def hexToRgb_def
        parseInt16_def hexDigitValue_def)
  have e: "opacity exampleHighlight = 50" "highlighterOpacity highlighterState = 100"
    by (simp_all add: exampleHighlight_def highlighterState_def)
  note t = highlighter_density_cap [OF a(1,2,3) b a(4),
      of "\<lparr>px = 0, py = 0\<rparr>" "\<lparr>px = 10, py = 0\<rparr>"]
  have t1: "u_alpha (strokeDrawState exampleHighlight mountedGL) = 1 / 20"
    using t e by simp
  have t2: "u_color (strokeDrawState exampleHighlight mountedGL) = (1 / 20, 1 / 25, 0)"
    using t c t1 by simp
  have t3: "u_alpha (liveDrawState highlighterState mountedGL) = 1 / 10"
    using t e by simp
  have t4: "u_color (liveDrawState highlighterState mountedGL) = (0, 0, 0)"
    using t d by simp
  have t5: "map_option (\<lambda>g. (u_color g, u_alpha g))
        (glRef (replayStroke exampleHighlight highlighterState))
       = Some ((1 / 20, 1 / 25, 0), 1 / 20)"
    using t unfolding t1 t2 by blast
  have t6: "map_option (\<lambda>g. (u_color g, u_alpha g))
        (glRef (drawLine \<lparr>px = 0, py = 0\<rparr> \<lparr>px = 10, py = 0\<rparr> highlighterState))
       = Some ((0, 0, 0), 1 / 10)"
    using t unfolding t3 t4 by blast
  show ?thesis
    by (intro conjI a b t1 t2 t3 t5 t6)
qed

theorem single_tap_scenario_witness:
  "glReady (mountedState 1) \<and> colorLocationRef (mountedState 1)
   \<and> alphaLocationRef (mountedState 1) \<and> pixelRatioRef (mountedState 1) = 1
   \<and> selectedTool (mountedState 1) = pen \<and> sizeN (mountedState 1) = 5
   \<and> history_inv (mountedState 1)
   \<and> 10 - rectLeft rect0 = 10 \<and> 10 - rectTop rect0 = 10
   \<and> entries (mountedState 1) = []
   \<and> entries tapState = [newStroke downState]
   \<and> points (newStroke downState) = [\<lparr>px = 10, py = 10\<rparr>]
   \<and> map (\<lambda>f. (center f, radius f)) (surfaceOf (redrawCanvas tapState))
       = [(\<lparr>px = 10, py = 10\<rparr>, 5 / 2)]"
proof -
  have a: "glReady (mountedState 1)" "colorLocationRef (mountedState 1)"
    "alphaLocationRef (mountedState 1)" "pixelRatioRef (mountedState 1) = 1"
    "selectedTool (mountedState 1) = pen" "sizeN (mountedState 1) = 5"
    "history_inv (mountedState 1)"
    by (simp_all add: glReady_def mountedState_fields history_inv_def activeCount_def entries_def)
  have b: "10 - rectLeft rect0 = 10" "10 - rectTop rect0 = 10" by (simp_all add: rect0_def)
  have c: "entries (mountedState 1) = []" by (simp add: entries_def mountedState_fields)
  from single_tap_scenario [OF a b] a b c
  show ?thesis by (simp add: tapState_def downState_def)
qed

end
